theory Spec2Isabelle
  imports Main "HOL-Library.AList" "HOL-Library.Multiset"
begin

section \<open>Data model\<close>

text \<open>
  The development embeds \<^verbatim>\<open>FoldersPreferencesProvider\<close>
  (packages/preferences/src/browser/folders-preferences-provider.ts).
  A URI is represented by its \<^verbatim>\<open>toString()\<close> form. A JavaScript \<^verbatim>\<open>Map\<close> is an
  association list in insertion order: \<^const>\<open>map_of\<close> is \<^verbatim>\<open>get\<close>,
  \<^const>\<open>AList.update\<close> is \<^verbatim>\<open>set\<close> (an existing key keeps its position, a new key is
  appended) and \<^const>\<open>AList.delete\<close> is \<^verbatim>\<open>delete\<close>. An optional argument or an
  \<^verbatim>\<open>undefined\<close> result is an \<open>option\<close>.
\<close>

type_synonym URI = string

text \<open>Preference values (\<^verbatim>\<open>any\<close> in the source) are JSON values; an object keeps its keys
  in insertion order.\<close>

datatype json =
    JNull
  | JBool bool
  | JNum int
  | JStr string
  | JArr "json list"
  | JObj "(string \<times> json) list"

text \<open>\<^verbatim>\<open>PreferenceResolveResult<T> = { value?: T, configUri?: URI }\<close>\<close>

record PreferenceResolveResult =
  rr_value :: "json option"
  rr_configUri :: "URI option"

text \<open>
  What a call can raise instead of returning: the error that \<^verbatim>\<open>new URI(s)\<close> throws for a
  string it rejects, and the error with which a provider's write rejects.
\<close>

datatype error = UriError | ProviderError string

text \<open>
  \<^verbatim>\<open>FolderPreferenceProvider\<close> is an external collaborator: the file-backed provider of one
  configuration file. Only its interface is used, so each method is a field of the record.
  The observers are pure: a write that a provider refuses changes nothing the search reads
  afterwards. The promise that \<^verbatim>\<open>setPreference\<close> returns resolves to a boolean (\<open>Inr\<close>) or
  rejects with an error (\<open>Inl\<close>).
\<close>

record FolderPreferenceProvider =
  folderUri :: URI
  provider_getConfigUri :: "string option \<Rightarrow> URI option"
  provider_resolve :: "string \<Rightarrow> string option \<Rightarrow> PreferenceResolveResult"
  provider_getPreferences :: "string option \<Rightarrow> (string \<times> json) list"
  provider_setPreference :: "string \<Rightarrow> json \<Rightarrow> string option \<Rightarrow> error + bool"

text \<open>\<^verbatim>\<open>PreferenceConfigurations\<close>, the external naming policy, taken as a parameter.\<close>

record PreferenceConfigurations =
  getPaths :: "string list"
  getSectionNames :: "string list"
  getConfigName :: string
  createUri :: "URI \<Rightarrow> string \<Rightarrow> string \<Rightarrow> URI"
  getName :: "URI option \<Rightarrow> string"
  getPath :: "URI option \<Rightarrow> string"
  isSectionName :: "string \<Rightarrow> bool"

text \<open>The URI utilities the selector uses: \<^verbatim>\<open>new URI(s).path\<close> and
  \<^verbatim>\<open>Path.relativity\<close>, both external and taken as parameters. The constructor
  \<^verbatim>\<open>new URI(s)\<close> throws for a string it rejects: \<open>uri_valid\<close> says which strings it accepts,
  and \<open>uri_path\<close> is the path of the URI it returns for them.\<close>

record UriOps =
  uri_valid :: "string \<Rightarrow> bool"
  uri_path :: "URI \<Rightarrow> string"
  path_relativity :: "string \<Rightarrow> string \<Rightarrow> int"

text \<open>\<^verbatim>\<open>this.providers\<close>: the registry, a \<^verbatim>\<open>Map<string, FolderPreferenceProvider>\<close>.\<close>

type_synonym registry = "(string \<times> FolderPreferenceProvider) list"

definition MAX_SAFE_INTEGER :: int where
  "MAX_SAFE_INTEGER = 9007199254740991"

section \<open>Folder selector\<close>

text \<open>
  The loop of \<^verbatim>\<open>getFolderProviders\<close> over \<^verbatim>\<open>this.providers.values()\<close>. The accumulator
  is the local \<^verbatim>\<open>folder\<close> (its relativity and, once a folder has been chosen, its uri) and
  the local map \<^verbatim>\<open>providers\<close> from a folder uri to the providers of that folder.
\<close>

fun scanProviders ::
  "UriOps \<Rightarrow> string \<Rightarrow> FolderPreferenceProvider list \<Rightarrow> int \<times> URI option \<Rightarrow>
   (URI \<times> FolderPreferenceProvider list) list \<Rightarrow>
   (int \<times> URI option) \<times> (URI \<times> FolderPreferenceProvider list) list" where
  "scanProviders ops resourcePath [] folder providers = (folder, providers)"
| "scanProviders ops resourcePath (provider # rest) folder providers =
     (let uri = folderUri provider;
          folderProviders =
            (case map_of providers uri of Some l \<Rightarrow> l | None \<Rightarrow> []) @ [provider];
          providers' = AList.update uri folderProviders providers;
          relativity = path_relativity ops (uri_path ops (folderUri provider)) resourcePath
      in scanProviders ops resourcePath rest
           (if relativity \<ge> 0 \<and> fst folder > relativity then (relativity, Some uri) else folder)
           providers')"

text \<open>An empty string is falsy in JavaScript, for \<^verbatim>\<open>!resourceUri\<close> as for
  \<^verbatim>\<open>folder.uri && ...\<close>. This is the result of \<^verbatim>\<open>getFolderProviders\<close> when
  \<^verbatim>\<open>new URI(resourceUri)\<close> returns; when it throws is said by \<open>getFolderProviders_throws\<close>
  below.\<close>

definition getFolderProviders ::
  "UriOps \<Rightarrow> registry \<Rightarrow> string option \<Rightarrow> FolderPreferenceProvider list" where
  "getFolderProviders ops reg resourceUri =
     (case resourceUri of
        None \<Rightarrow> []
      | Some r \<Rightarrow>
          if r = [] then []
          else
            (let resourcePath = uri_path ops r;
                 (folder, providers) =
                   scanProviders ops resourcePath (map snd reg) (MAX_SAFE_INTEGER, None) []
             in case snd folder of
                  None \<Rightarrow> []
                | Some u \<Rightarrow>
                    if u = [] then []
                    else (case map_of providers u of Some l \<Rightarrow> l | None \<Rightarrow> [])))"

text \<open>\<^verbatim>\<open>getFolderProviders\<close> throws, instead of returning, when it reaches
  \<^verbatim>\<open>new URI(resourceUri)\<close> (the resource URI is given and not empty) with a string that the
  constructor rejects. Nothing in the class catches the error, so it leaves every method
  that calls the selector; \<open>resolve\<close>, \<open>getPreferences\<close> and the search below give what these
  methods do when the selector returns.\<close>

definition getFolderProviders_throws :: "UriOps \<Rightarrow> string option \<Rightarrow> bool" where
  "getFolderProviders_throws ops resourceUri =
     (case resourceUri of
        None \<Rightarrow> False
      | Some r \<Rightarrow> r \<noteq> [] \<and> \<not> uri_valid ops r)"

section \<open>Grouping by logical config name\<close>

text \<open>\<^verbatim>\<open>groupProvidersByConfigName\<close>: the result is a \<^verbatim>\<open>Map\<close>, so a name met a second time
  overwrites its group and keeps its first position.\<close>

definition groupProvidersByConfigName ::
  "UriOps \<Rightarrow> PreferenceConfigurations \<Rightarrow> registry \<Rightarrow> string option \<Rightarrow>
   (string \<times> FolderPreferenceProvider list) list" where
  "groupProvidersByConfigName ops cfg reg resourceUri =
     (let providers = getFolderProviders ops reg resourceUri
      in foldl
           (\<lambda>groups configName.
              AList.update configName
                [provider \<leftarrow> providers.
                   getName cfg (provider_getConfigUri provider None) = configName]
                groups)
           []
           (getConfigName cfg # getSectionNames cfg))"

section \<open>Resolution engine\<close>

text \<open>
  Modelled from the spec: \<^verbatim>\<open>PreferenceProvider.merge\<close>, which is not among the sources.
  The specification describes it as a deep, right-biased override merge: later merges
  override overlapping keys of earlier ones, non-overlapping keys are unioned. Two objects
  are merged key by key (the keys of the earlier object first, then the new keys of the later
  one); in every other case the later value replaces the earlier one.
\<close>

fun merge_json :: "json \<Rightarrow> json \<Rightarrow> json"
  and merge_fields ::
    "(string \<times> json) list \<Rightarrow> (string \<times> json) list \<Rightarrow> (string \<times> json) list" where
  "merge_json (JObj a) (JObj b) = JObj (merge_fields a b @ [(k, v) \<leftarrow> b. map_of a k = None])"
| "merge_json s t = t"
| "merge_fields [] b = []"
| "merge_fields ((k, x) # a) b =
     (case map_of b k of None \<Rightarrow> (k, x) | Some y \<Rightarrow> (k, merge_json x y)) # merge_fields a b"

text \<open>The first argument of \<^verbatim>\<open>merge\<close> may be \<^verbatim>\<open>undefined\<close> (the empty result of
  \<^verbatim>\<open>resolve\<close>): then the second argument is the result.\<close>

fun merge :: "json option \<Rightarrow> json \<Rightarrow> json" where
  "merge None target = target"
| "merge (Some source) target = merge_json source target"

text \<open>The inner loop of \<^verbatim>\<open>resolve\<close> over one group: the first provider that returns a
  config URI and a defined value is merged into the result, and the loop breaks.\<close>

fun resolveGroup ::
  "string \<Rightarrow> string option \<Rightarrow> FolderPreferenceProvider list \<Rightarrow>
   PreferenceResolveResult \<Rightarrow> PreferenceResolveResult" where
  "resolveGroup preferenceName resourceUri [] result = result"
| "resolveGroup preferenceName resourceUri (provider # rest) result =
     (let r = provider_resolve provider preferenceName resourceUri
      in case (rr_configUri r, rr_value r) of
           (Some configUri, Some v) \<Rightarrow>
             \<lparr> rr_value = Some (merge (rr_value result) v), rr_configUri = Some configUri \<rparr>
         | _ \<Rightarrow> resolveGroup preferenceName resourceUri rest result)"

definition resolve ::
  "UriOps \<Rightarrow> PreferenceConfigurations \<Rightarrow> registry \<Rightarrow> string \<Rightarrow> string option \<Rightarrow>
   PreferenceResolveResult" where
  "resolve ops cfg reg preferenceName resourceUri =
     foldl (\<lambda>result group. resolveGroup preferenceName resourceUri group result)
       \<lparr> rr_value = None, rr_configUri = None \<rparr>
       (map snd (groupProvidersByConfigName ops cfg reg resourceUri))"

text \<open>The inner loop of \<^verbatim>\<open>getPreferences\<close> over one group. A provider's preferences are
  an object, \<^verbatim>\<open>{ [p: string]: any }\<close>, given by its fields.\<close>

fun preferencesOfGroup ::
  "string option \<Rightarrow> FolderPreferenceProvider list \<Rightarrow> json \<Rightarrow> json" where
  "preferencesOfGroup resourceUri [] result = result"
| "preferencesOfGroup resourceUri (provider # rest) result =
     (case provider_getConfigUri provider resourceUri of
        Some configUri \<Rightarrow> merge (Some result) (JObj (provider_getPreferences provider None))
      | None \<Rightarrow> preferencesOfGroup resourceUri rest result)"

definition getPreferences ::
  "UriOps \<Rightarrow> PreferenceConfigurations \<Rightarrow> registry \<Rightarrow> string option \<Rightarrow> json" where
  "getPreferences ops cfg reg resourceUri =
     foldl (\<lambda>result group. preferencesOfGroup resourceUri group result)
       (JObj [])
       (map snd (groupProvidersByConfigName ops cfg reg resourceUri))"

section \<open>Write routing\<close>

text \<open>
  The closures that \<^verbatim>\<open>setPreference\<close> pushes on its queue \<^verbatim>\<open>iterator\<close>. Each closes over
  one provider: \<open>Tier1\<close> is the closure pushed by the first loop, \<open>Tier2\<close> the closure it
  pushes when the provider has no config file for the resource, \<open>Tier3\<close> the closure that
  one pushes when the provider's path is not \<^verbatim>\<open>configPath\<close>.
\<close>

datatype thunk =
    Tier1 FolderPreferenceProvider
  | Tier2 FolderPreferenceProvider
  | Tier3 FolderPreferenceProvider

text \<open>Running a closure: the provider it returns, if any, and the closures it pushes.\<close>

fun runThunk ::
  "PreferenceConfigurations \<Rightarrow> string option \<Rightarrow> string option \<Rightarrow> thunk \<Rightarrow>
   FolderPreferenceProvider option \<times> thunk list" where
  "runThunk cfg resourceUri configPath (Tier1 provider) =
     (if provider_getConfigUri provider resourceUri \<noteq> None then (Some provider, [])
      else (None, [Tier2 provider]))"
| "runThunk cfg resourceUri configPath (Tier2 provider) =
     (if Some (getPath cfg (provider_getConfigUri provider None)) = configPath
      then (Some provider, [])
      else (None, [Tier3 provider]))"
| "runThunk cfg resourceUri configPath (Tier3 provider) = (Some provider, [])"

text \<open>The first loop of \<^verbatim>\<open>setPreference\<close>: it fixes \<^verbatim>\<open>configPath\<close> and fills the queue.\<close>

fun collectCandidates ::
  "PreferenceConfigurations \<Rightarrow> string option \<Rightarrow> string \<Rightarrow> FolderPreferenceProvider list \<Rightarrow>
   string option \<Rightarrow> thunk list \<Rightarrow> string option \<times> thunk list" where
  "collectCandidates cfg resourceUri configName [] configPath iterator = (configPath, iterator)"
| "collectCandidates cfg resourceUri configName (provider # rest) configPath iterator =
     (let configPath' =
            (if configPath = None
             then (case provider_getConfigUri provider resourceUri of
                     Some configUri \<Rightarrow> Some (getPath cfg (Some configUri))
                   | None \<Rightarrow> configPath)
             else configPath);
          iterator' =
            (if getName cfg (provider_getConfigUri provider None) = configName
             then iterator @ [Tier1 provider]
             else iterator)
      in collectCandidates cfg resourceUri configName rest configPath' iterator')"

text \<open>
  How a search ends, with the boolean it returns or the error of a write that rejected, and
  what it does besides: the providers whose \<^verbatim>\<open>setPreference\<close> was called and the closures
  that were run, both in order.
\<close>

record search =
  outcome :: "error + bool"
  written :: "FolderPreferenceProvider list"
  ran :: "thunk list"

definition after ::
  "thunk \<Rightarrow> FolderPreferenceProvider list \<Rightarrow> search \<Rightarrow> search" where
  "after t ps s = s\<lparr> written := ps @ written s, ran := t # ran s \<rparr>"

fun tierWeight :: "thunk \<Rightarrow> nat" where
  "tierWeight (Tier1 p) = 3"
| "tierWeight (Tier2 p) = 2"
| "tierWeight (Tier3 p) = 1"

text \<open>The \<^verbatim>\<open>while (next)\<close> loop: \<^verbatim>\<open>iterator.shift()\<close> takes the head of the queue before the
  closure runs, so what the closure pushes goes behind the rest. The \<^verbatim>\<open>await\<close> of a write
  that rejects throws, which ends the loop with that error.\<close>

function drain ::
  "PreferenceConfigurations \<Rightarrow> string \<Rightarrow> json \<Rightarrow> string option \<Rightarrow> string option \<Rightarrow>
   thunk list \<Rightarrow> search" where
  "drain cfg preferenceName v resourceUri configPath [] =
     \<lparr> outcome = Inr False, written = [], ran = [] \<rparr>"
| "drain cfg preferenceName v resourceUri configPath (next # iterator) =
     (case fst (runThunk cfg resourceUri configPath next) of
        Some provider \<Rightarrow>
          (case provider_setPreference provider preferenceName v resourceUri of
             Inl e \<Rightarrow> \<lparr> outcome = Inl e, written = [provider], ran = [next] \<rparr>
           | Inr ok \<Rightarrow>
               if ok
               then \<lparr> outcome = Inr True, written = [provider], ran = [next] \<rparr>
               else after next [provider]
                      (drain cfg preferenceName v resourceUri configPath
                         (iterator @ snd (runThunk cfg resourceUri configPath next))))
      | None \<Rightarrow>
          after next []
            (drain cfg preferenceName v resourceUri configPath
               (iterator @ snd (runThunk cfg resourceUri configPath next))))"
  by pat_completeness auto

termination
proof (relation "measure (\<lambda>(cfg, preferenceName, v, resourceUri, configPath, iterator).
                           sum_list (map tierWeight iterator))")
  show "wf (measure (\<lambda>(cfg, preferenceName, v, resourceUri, configPath, iterator).
                           sum_list (map tierWeight iterator)))"
    by simp
next
  fix cfg :: PreferenceConfigurations and preferenceName :: string and v :: json
    and resourceUri configPath :: "string option" and "next" :: thunk and iterator :: "thunk list"
  have "sum_list (map tierWeight (snd (runThunk cfg resourceUri configPath next))) < tierWeight next"
    by (cases "next") auto
  then show "((cfg, preferenceName, v, resourceUri, configPath,
               iterator @ snd (runThunk cfg resourceUri configPath next)),
              (cfg, preferenceName, v, resourceUri, configPath, next # iterator))
             \<in> measure (\<lambda>(cfg, preferenceName, v, resourceUri, configPath, iterator).
                           sum_list (map tierWeight iterator))"
    by simp
  then show "((cfg, preferenceName, v, resourceUri, configPath,
               iterator @ snd (runThunk cfg resourceUri configPath next)),
              (cfg, preferenceName, v, resourceUri, configPath, next # iterator))
             \<in> measure (\<lambda>(cfg, preferenceName, v, resourceUri, configPath, iterator).
                           sum_list (map tierWeight iterator))"
    by simp
qed

definition setPreference_search ::
  "UriOps \<Rightarrow> PreferenceConfigurations \<Rightarrow> registry \<Rightarrow> string \<Rightarrow> json \<Rightarrow> string option \<Rightarrow>
   search" where
  "setPreference_search ops cfg reg preferenceName v resourceUri =
     (let sectionName = takeWhile (\<lambda>c. c \<noteq> CHR ''.'') preferenceName;
          configName =
            (if isSectionName cfg sectionName then sectionName else getConfigName cfg);
          providers = getFolderProviders ops reg resourceUri;
          (configPath, iterator) =
            collectCandidates cfg resourceUri configName providers None []
      in drain cfg preferenceName v resourceUri configPath iterator)"

text \<open>
  How the promise of \<^verbatim>\<open>setPreference\<close> settles: it rejects with the error that
  \<^verbatim>\<open>getFolderProviders\<close> throws, or with the error of a write that rejected; otherwise it
  resolves to the boolean the loop returns.
\<close>

definition setPreference ::
  "UriOps \<Rightarrow> PreferenceConfigurations \<Rightarrow> registry \<Rightarrow> string \<Rightarrow> json \<Rightarrow> string option \<Rightarrow>
   error + bool" where
  "setPreference ops cfg reg preferenceName v resourceUri =
     (if getFolderProviders_throws ops resourceUri then Inl UriError
      else outcome (setPreference_search ops cfg reg preferenceName v resourceUri))"

section \<open>Provider registry\<close>

text \<open>A workspace root, \<^verbatim>\<open>{ uri }\<close>.\<close>

record Folder =
  uri :: URI

text \<open>
  The state \<^verbatim>\<open>updateProviders\<close> changes: the registry and the \<^verbatim>\<open>toDispose\<close> collection, to
  which \<^verbatim>\<open>createProvider\<close> adds the new provider and its change subscription (each named by
  the provider's key).
\<close>

datatype disposable = OfProvider string | OfSubscription string

record FoldersState =
  providers :: registry
  toDispose :: "disposable list"

text \<open>What a pass does to its collaborators: a call of the provider factory, or a call of
  \<^verbatim>\<open>dispose\<close> on a provider, each with the provider's key.\<close>

datatype activity = Created string | Disposed string

text \<open>The triples the three nested loops visit, in the order they visit them.\<close>

definition desiredTriples ::
  "PreferenceConfigurations \<Rightarrow> Folder list \<Rightarrow> (Folder \<times> string \<times> string) list" where
  "desiredTriples cfg roots =
     concat (map (\<lambda>folder.
       concat (map (\<lambda>configPath.
         map (\<lambda>configName. (folder, configPath, configName))
           (getSectionNames cfg @ [getConfigName cfg]))
         (getPaths cfg)))
       roots)"

text \<open>The body of the innermost loop, run for each triple; \<^verbatim>\<open>toDelete\<close> is the
  \<^verbatim>\<open>Set\<close> of the registry's keys, in insertion order (the keys of a \<^verbatim>\<open>Map\<close> are distinct,
  so the set is the list of keys).\<close>

fun visitDesired ::
  "PreferenceConfigurations \<Rightarrow> (Folder \<Rightarrow> URI \<Rightarrow> FolderPreferenceProvider) \<Rightarrow>
   (Folder \<times> string \<times> string) list \<Rightarrow> FoldersState \<Rightarrow> string list \<Rightarrow> activity list \<Rightarrow>
   FoldersState \<times> string list \<times> activity list" where
  "visitDesired cfg factory [] st toDelete log = (st, toDelete, log)"
| "visitDesired cfg factory ((folder, configPath, configName) # rest) st toDelete log =
     (let configUri = createUri cfg (uri folder) configPath configName;
          key = configUri;
          toDelete' = removeAll key toDelete
      in if map_of (providers st) key = None
         then
           (let provider = factory folder configUri;
                st' = st\<lparr> providers := AList.update key provider (providers st),
                          toDispose := toDispose st @ [OfProvider key, OfSubscription key] \<rparr>
            in visitDesired cfg factory rest st' toDelete' (log @ [Created key]))
         else visitDesired cfg factory rest st toDelete' log)"

text \<open>The second loop, over what is left of \<^verbatim>\<open>toDelete\<close>.\<close>

fun disposeStale ::
  "string list \<Rightarrow> FoldersState \<Rightarrow> activity list \<Rightarrow> FoldersState \<times> activity list" where
  "disposeStale [] st log = (st, log)"
| "disposeStale (key # rest) st log =
     (case map_of (providers st) key of
        Some provider \<Rightarrow>
          disposeStale rest (st\<lparr> providers := AList.delete key (providers st) \<rparr>)
            (log @ [Disposed key])
      | None \<Rightarrow> disposeStale rest st log)"

text \<open>\<^verbatim>\<open>updateProviders\<close>, given the roots \<^verbatim>\<open>tryGetRoots()\<close> returns and the provider factory.
  It returns the new state and the activity of this pass.\<close>

definition updateProviders ::
  "PreferenceConfigurations \<Rightarrow> (Folder \<Rightarrow> URI \<Rightarrow> FolderPreferenceProvider) \<Rightarrow>
   Folder list \<Rightarrow> FoldersState \<Rightarrow> FoldersState \<times> activity list" where
  "updateProviders cfg factory roots st =
     (let toDelete = map fst (providers st);
          (st', toDelete', log) =
            visitDesired cfg factory (desiredTriples cfg roots) st toDelete []
      in disposeStale toDelete' st' log)"

section \<open>A sample workspace\<close>

text \<open>
  Concrete collaborators on which the theorems below are instantiated. Paths are split at
  \<open>/\<close>; the relativity of a folder path to a resource path is the number of segments the
  resource lies below the folder, and \<open>-1\<close> when the folder is not an ancestor. A file
  URI is \<open>file://\<close> followed by the path. The URI constructor rejects a string whose scheme,
  the text before its first colon, has a space in it.
\<close>

fun splitOn :: "char \<Rightarrow> string \<Rightarrow> string \<Rightarrow> string list" where
  "splitOn c [] cur = [cur]"
| "splitOn c (x # xs) cur = (if x = c then cur # splitOn c xs [] else splitOn c xs (cur @ [x]))"

definition segments :: "string \<Rightarrow> string list" where
  "segments s = filter (\<lambda>seg. seg \<noteq> []) (splitOn (CHR ''/'') s [])"

definition sampleOps :: UriOps where
  "sampleOps =
     \<lparr> uri_valid = (\<lambda>s. CHR '' '' \<notin> set (takeWhile (\<lambda>c. c \<noteq> CHR '':'') s)),
       uri_path = drop 7,
       path_relativity = (\<lambda>folderPath resourcePath.
         (let f = segments folderPath; r = segments resourcePath
          in if take (length f) r = f then int (length r) - int (length f) else - 1)) \<rparr>"

definition sampleConfigurations :: "string list \<Rightarrow> PreferenceConfigurations" where
  "sampleConfigurations paths =
     \<lparr> getPaths = paths,
       getSectionNames = [''launch'', ''tasks''],
       getConfigName = ''settings'',
       createUri = (\<lambda>folder configPath configName.
         folder @ ''/'' @ configPath @ ''/'' @ configName @ ''.json''),
       getName = (\<lambda>u. case u of
                        None \<Rightarrow> []
                      | Some s \<Rightarrow> takeWhile (\<lambda>c. c \<noteq> CHR ''.'') (last (segments s))),
       getPath = (\<lambda>u. case u of None \<Rightarrow> [] | Some s \<Rightarrow> last (butlast (segments s))),
       isSectionName = (\<lambda>name. name \<in> set [''launch'', ''tasks'']) \<rparr>"

text \<open>A provider for one configuration file: whether the file is there for the resource,
  the preferences it holds, and whether it accepts a write.\<close>

definition fileProvider ::
  "URI \<Rightarrow> URI \<Rightarrow> bool \<Rightarrow> (string \<times> json) list \<Rightarrow> bool \<Rightarrow> FolderPreferenceProvider" where
  "fileProvider folder configUri present prefs writable =
     \<lparr> folderUri = folder,
       provider_getConfigUri =
         (\<lambda>resourceUri. case resourceUri of
            None \<Rightarrow> Some configUri
          | Some r \<Rightarrow> if present then Some configUri else None),
       provider_resolve =
         (\<lambda>preferenceName resourceUri. case map_of prefs preferenceName of
            Some v \<Rightarrow> \<lparr> rr_value = Some v, rr_configUri = Some configUri \<rparr>
          | None \<Rightarrow> \<lparr> rr_value = None, rr_configUri = None \<rparr>),
       provider_getPreferences = (\<lambda>resourceUri. prefs),
       provider_setPreference = (\<lambda>preferenceName v resourceUri. Inr writable) \<rparr>"

definition entry ::
  "URI \<Rightarrow> string \<Rightarrow> string \<Rightarrow> bool \<Rightarrow> (string \<times> json) list \<Rightarrow> bool \<Rightarrow>
   string \<times> FolderPreferenceProvider" where
  "entry folder configPath configName present prefs writable =
     (let configUri = createUri (sampleConfigurations []) folder configPath configName
      in (configUri, fileProvider folder configUri present prefs writable))"

text \<open>Two nested folders, each with a settings file and a launch file.\<close>

definition nestedRegistry :: registry where
  "nestedRegistry =
     [entry ''file:///a'' ''.kt'' ''launch'' True [(''launch.foo'', JNum 1)] True,
      entry ''file:///a'' ''.kt'' ''settings'' True [(''x'', JNum 0)] True,
      entry ''file:///a/b'' ''.kt'' ''launch'' True [(''y'', JNum 2)] True,
      entry ''file:///a/b'' ''.kt'' ''settings'' True [(''x'', JNum 1)] True]"

text \<open>Two folder URIs of the same path, registered after a less specific folder.\<close>

definition tiedRegistry :: registry where
  "tiedRegistry =
     [entry ''file:///a'' ''.kt'' ''settings'' True [] True,
      entry ''file:///a/b'' ''.kt'' ''settings'' True [] True,
      entry ''test:///a/b'' ''.kt'' ''settings'' True [] True,
      entry ''file:///a/b'' ''.kt'' ''launch'' True [] True]"

text \<open>One folder whose launch file and settings file both define \<open>launch.foo\<close>: with plain
  values, and with objects.\<close>

definition launchRegistry :: registry where
  "launchRegistry =
     [entry ''file:///a'' ''.kt'' ''launch'' True [(''launch.foo'', JNum 2)] True,
      entry ''file:///a'' ''.kt'' ''tasks'' True [] True,
      entry ''file:///a'' ''.kt'' ''settings'' True [(''launch.foo'', JNum 1)] True]"

definition objectRegistry :: registry where
  "objectRegistry =
     [entry ''file:///a'' ''.kt'' ''launch'' True [(''launch.foo'', JObj [(''b'', JNum 2)])] True,
      entry ''file:///a'' ''.kt'' ''tasks'' True [] True,
      entry ''file:///a'' ''.kt'' ''settings'' True [(''launch.foo'', JObj [(''a'', JNum 1)])] True]"

text \<open>The same folder with providers whose writes reject.\<close>

definition rejectingRegistry :: registry where
  "rejectingRegistry =
     map (\<lambda>(key, p).
            (key, p\<lparr> provider_setPreference :=
                        (\<lambda>preferenceName v resourceUri. Inl (ProviderError ''EACCES'')) \<rparr>))
       launchRegistry"

text \<open>
  One folder and three config paths, the registry being what \<^verbatim>\<open>updateProviders\<close> builds from
  the empty one. The launch files under \<open>.b\<close> and \<open>.c\<close> are there, no settings file is, and
  the provider of the settings file under \<open>.b\<close> refuses writes.
\<close>

definition threePathConfigurations :: PreferenceConfigurations where
  "threePathConfigurations = sampleConfigurations [''.a'', ''.b'', ''.c'']"

definition threePathFactory :: "Folder \<Rightarrow> URI \<Rightarrow> FolderPreferenceProvider" where
  "threePathFactory folder configUri =
     fileProvider (uri folder) configUri
       (configUri \<in> set [''file:///w/.b/launch.json'', ''file:///w/.c/launch.json''])
       []
       (configUri \<noteq> ''file:///w/.b/settings.json'')"

definition emptyState :: FoldersState where
  "emptyState = \<lparr> providers = [], toDispose = [] \<rparr>"

definition threePathState :: FoldersState where
  "threePathState =
     fst (updateProviders threePathConfigurations threePathFactory [\<lparr> uri = ''file:///w'' \<rparr>]
            emptyState)"

definition threePathRegistry :: registry where
  "threePathRegistry = providers threePathState"

text \<open>Two passes with one config path: the roots \<open>a\<close> and \<open>b\<close>, then the roots \<open>b\<close> and
  \<open>c\<close>.\<close>

definition onePathConfigurations :: PreferenceConfigurations where
  "onePathConfigurations = sampleConfigurations [''.kt'']"

definition plainFactory :: "Folder \<Rightarrow> URI \<Rightarrow> FolderPreferenceProvider" where
  "plainFactory folder configUri = fileProvider (uri folder) configUri True [] True"

definition stateAB :: FoldersState where
  "stateAB =
     fst (updateProviders onePathConfigurations plainFactory
            [\<lparr> uri = ''file:///a'' \<rparr>, \<lparr> uri = ''file:///b'' \<rparr>] emptyState)"

section \<open>Auxiliary definitions\<close>

text \<open>The relativity of a provider's folder to a resource, as \<^verbatim>\<open>getFolderProviders\<close> computes it.\<close>

abbreviation relativityOf :: "UriOps \<Rightarrow> string \<Rightarrow> FolderPreferenceProvider \<Rightarrow> int" where
  "relativityOf ops r p \<equiv> path_relativity ops (uri_path ops (folderUri p)) (uri_path ops r)"

definition groupOf ::
  "(URI \<times> FolderPreferenceProvider list) list \<Rightarrow> URI \<Rightarrow> FolderPreferenceProvider list" where
  "groupOf g u = (case map_of g u of Some l \<Rightarrow> l | None \<Rightarrow> [])"

definition chooseFolder ::
  "UriOps \<Rightarrow> string \<Rightarrow> FolderPreferenceProvider \<Rightarrow> int \<times> URI option \<Rightarrow> int \<times> URI option" where
  "chooseFolder ops rp p f =
     (if path_relativity ops (uri_path ops (folderUri p)) rp \<ge> 0
         \<and> fst f > path_relativity ops (uri_path ops (folderUri p)) rp
      then (path_relativity ops (uri_path ops (folderUri p)) rp, Some (folderUri p)) else f)"

text \<open>The invariant of the loop: after the providers \<open>ps\<close>, the local \<^verbatim>\<open>folder\<close> is still the
  initial one and no provider qualified, or it is the folder of the first provider of least
  relativity among those that qualify.\<close>

definition folderInv ::
  "(FolderPreferenceProvider \<Rightarrow> int) \<Rightarrow> int \<Rightarrow> FolderPreferenceProvider list \<Rightarrow>
   int \<times> URI option \<Rightarrow> bool" where
  "folderInv rel M ps f \<longleftrightarrow>
     (f = (M, None) \<and> (\<forall>p \<in> set ps. \<not> (0 \<le> rel p \<and> rel p < M)))
   \<or> (\<exists>i < length ps. f = (rel (ps ! i), Some (folderUri (ps ! i)))
        \<and> 0 \<le> rel (ps ! i) \<and> rel (ps ! i) < M
        \<and> (\<forall>q \<in> set ps. 0 \<le> rel q \<longrightarrow> rel (ps ! i) \<le> rel q)
        \<and> (\<forall>j < i. 0 \<le> rel (ps ! j) \<longrightarrow> rel (ps ! i) < rel (ps ! j)))"

text \<open>The providers of one logical config name among the selected folder's providers: the
  group that the inner loop of \<^verbatim>\<open>groupProvidersByConfigName\<close> builds.\<close>

definition groupNamed ::
  "PreferenceConfigurations \<Rightarrow> FolderPreferenceProvider list \<Rightarrow> string \<Rightarrow>
   FolderPreferenceProvider list" where
  "groupNamed cfg ps configName =
     [p \<leftarrow> ps. getName cfg (provider_getConfigUri p None) = configName]"

text \<open>The test of \<^verbatim>\<open>resolve\<close> on what a provider returns: a config URI and a defined value.\<close>

definition contributes :: "string \<Rightarrow> string option \<Rightarrow> FolderPreferenceProvider \<Rightarrow> bool" where
  "contributes preferenceName resourceUri p \<longleftrightarrow>
     rr_configUri (provider_resolve p preferenceName resourceUri) \<noteq> None
   \<and> rr_value (provider_resolve p preferenceName resourceUri) \<noteq> None"

text \<open>What a group contributes to \<^verbatim>\<open>resolve\<close>: the result of its first provider that passes
  the test.\<close>

definition firstContribution ::
  "string \<Rightarrow> string option \<Rightarrow> FolderPreferenceProvider list \<Rightarrow> PreferenceResolveResult option" where
  "firstContribution preferenceName resourceUri grp =
     map_option (\<lambda>p. provider_resolve p preferenceName resourceUri)
       (find (contributes preferenceName resourceUri) grp)"

text \<open>What a group contributes to \<^verbatim>\<open>getPreferences\<close>: the preferences of its first provider
  that has a config URI for the resource.\<close>

definition groupPreferences ::
  "string option \<Rightarrow> FolderPreferenceProvider list \<Rightarrow> (string \<times> json) list option" where
  "groupPreferences resourceUri grp =
     map_option (\<lambda>p. provider_getPreferences p None)
       (find (\<lambda>p. provider_getConfigUri p resourceUri \<noteq> None) grp)"

text \<open>The value of a key of an object.\<close>

fun field :: "json \<Rightarrow> string \<Rightarrow> json option" where
  "field (JObj a) k = map_of a k"
| "field v k = None"

text \<open>The logical config name \<^verbatim>\<open>setPreference\<close> writes to.\<close>

definition configNameOf :: "PreferenceConfigurations \<Rightarrow> string \<Rightarrow> string" where
  "configNameOf cfg preferenceName =
     (let sectionName = takeWhile (\<lambda>c. c \<noteq> CHR ''.'') preferenceName
      in if isSectionName cfg sectionName then sectionName else getConfigName cfg)"

text \<open>The value of \<^verbatim>\<open>configPath\<close> after the first loop of \<^verbatim>\<open>setPreference\<close>: the path of the
  first of the folder's providers that has a config URI for the resource.\<close>

definition firstConfigPath ::
  "PreferenceConfigurations \<Rightarrow> string option \<Rightarrow> FolderPreferenceProvider list \<Rightarrow> string option" where
  "firstConfigPath cfg resourceUri ps =
     map_option (\<lambda>p. getPath cfg (provider_getConfigUri p resourceUri))
       (find (\<lambda>p. provider_getConfigUri p resourceUri \<noteq> None) ps)"

text \<open>A list up to and including its first element that satisfies a predicate.\<close>

definition upToFirst :: "('a \<Rightarrow> bool) \<Rightarrow> 'a list \<Rightarrow> 'a list" where
  "upToFirst P xs = takeWhile (\<lambda>x. \<not> P x) xs @ take 1 (dropWhile (\<lambda>x. \<not> P x) xs)"

text \<open>The closures a list of closures pushes, the closures that run if every write is
  refused, the providers a list of closures returns, and whether a closure ends the search:
  it does when it returns a provider whose write is not refused (it is accepted, or it
  rejects).\<close>

definition pushes ::
  "PreferenceConfigurations \<Rightarrow> string option \<Rightarrow> string option \<Rightarrow> thunk list \<Rightarrow> thunk list" where
  "pushes cfg resourceUri configPath q =
     concat (map (\<lambda>t. snd (runThunk cfg resourceUri configPath t)) q)"

definition schedule ::
  "PreferenceConfigurations \<Rightarrow> string option \<Rightarrow> string option \<Rightarrow> thunk list \<Rightarrow> thunk list" where
  "schedule cfg resourceUri configPath q =
     q @ pushes cfg resourceUri configPath q
       @ pushes cfg resourceUri configPath (pushes cfg resourceUri configPath q)"

definition selected ::
  "PreferenceConfigurations \<Rightarrow> string option \<Rightarrow> string option \<Rightarrow> thunk list \<Rightarrow>
   FolderPreferenceProvider list" where
  "selected cfg resourceUri configPath q =
     List.map_filter (\<lambda>t. fst (runThunk cfg resourceUri configPath t)) q"

definition hit ::
  "PreferenceConfigurations \<Rightarrow> string \<Rightarrow> json \<Rightarrow> string option \<Rightarrow> string option \<Rightarrow> thunk \<Rightarrow> bool" where
  "hit cfg preferenceName v resourceUri configPath t =
     (case fst (runThunk cfg resourceUri configPath t) of
        Some p \<Rightarrow> provider_setPreference p preferenceName v resourceUri \<noteq> Inr False
      | None \<Rightarrow> False)"

text \<open>The provider and the tier of a closure.\<close>

fun thunkProvider :: "thunk \<Rightarrow> FolderPreferenceProvider" where
  "thunkProvider (Tier1 p) = p"
| "thunkProvider (Tier2 p) = p"
| "thunkProvider (Tier3 p) = p"

fun thunkTier :: "thunk \<Rightarrow> nat" where
  "thunkTier (Tier1 p) = 1"
| "thunkTier (Tier2 p) = 2"
| "thunkTier (Tier3 p) = 3"


text \<open>
  The order of the candidates as the claim words it: in the second tier, the providers whose
  path is the path of any provider of the folder that has a config URI for the resource.
\<close>

definition claimedTiers ::
  "PreferenceConfigurations \<Rightarrow> string option \<Rightarrow> FolderPreferenceProvider list \<Rightarrow>
   FolderPreferenceProvider list \<Rightarrow> FolderPreferenceProvider list" where
  "claimedTiers cfg resourceUri ps cands =
     [p \<leftarrow> cands. provider_getConfigUri p resourceUri \<noteq> None]
     @ [p \<leftarrow> cands. provider_getConfigUri p resourceUri = None
          \<and> (\<exists>q \<in> set ps. provider_getConfigUri q resourceUri \<noteq> None
                \<and> getPath cfg (provider_getConfigUri q resourceUri) =
                    getPath cfg (provider_getConfigUri p None))]
     @ [p \<leftarrow> cands. provider_getConfigUri p resourceUri = None
          \<and> \<not> (\<exists>q \<in> set ps. provider_getConfigUri q resourceUri \<noteq> None
                \<and> getPath cfg (provider_getConfigUri q resourceUri) =
                    getPath cfg (provider_getConfigUri p None))]"

text \<open>The key of a triple, and the keys of the desired set: one for each triple
  \<^verbatim>\<open>updateProviders\<close> visits.\<close>

definition keyOf :: "PreferenceConfigurations \<Rightarrow> Folder \<times> string \<times> string \<Rightarrow> string" where
  "keyOf cfg t =
     (case t of (folder, configPath, configName) \<Rightarrow>
        createUri cfg (uri folder) configPath configName)"

definition desiredKeys :: "PreferenceConfigurations \<Rightarrow> Folder list \<Rightarrow> string list" where
  "desiredKeys cfg roots = map (keyOf cfg) (desiredTriples cfg roots)"

text \<open>The keys of the providers a pass disposed, in order.\<close>

fun disposedKeys :: "activity list \<Rightarrow> string list" where
  "disposedKeys [] = []"
| "disposedKeys (Disposed k # log) = k # disposedKeys log"
| "disposedKeys (Created k # log) = disposedKeys log"

section \<open>Properties of the folder selector\<close>

lemma scan_snoc:
  "scanProviders ops rp (ps @ [p]) f g =
     (chooseFolder ops rp p (fst (scanProviders ops rp ps f g)),
      AList.update (folderUri p) (groupOf (snd (scanProviders ops rp ps f g)) (folderUri p) @ [p])
        (snd (scanProviders ops rp ps f g)))"
  by (induction ps arbitrary: f g) (simp_all add: Let_def groupOf_def chooseFolder_def)

lemma scan_groups:
  "groupOf (snd (scanProviders ops rp ps f g)) u = groupOf g u @ [p \<leftarrow> ps. folderUri p = u]"
  by (induction ps arbitrary: f g) (auto simp: Let_def groupOf_def update_conv')

lemma folderInv_step:
  assumes "folderInv rel M ps f"
  shows "folderInv rel M (ps @ [p])
           (if rel p \<ge> 0 \<and> fst f > rel p then (rel p, Some (folderUri p)) else f)"
proof -
  from assms consider
    (none) "f = (M, None)" "\<forall>p \<in> set ps. \<not> (0 \<le> rel p \<and> rel p < M)"
  | (some) i where "i < length ps" "f = (rel (ps ! i), Some (folderUri (ps ! i)))"
      "0 \<le> rel (ps ! i)" "rel (ps ! i) < M"
      "\<forall>q \<in> set ps. 0 \<le> rel q \<longrightarrow> rel (ps ! i) \<le> rel q"
      "\<forall>j < i. 0 \<le> rel (ps ! j) \<longrightarrow> rel (ps ! i) < rel (ps ! j)"
    unfolding folderInv_def by blast
  then show ?thesis
  proof cases
    case none
    show ?thesis
    proof (cases "0 \<le> rel p \<and> rel p < M")
      case True
      have least: "\<forall>q \<in> set (ps @ [p]). 0 \<le> rel q \<longrightarrow> rel p \<le> rel q"
        using none(2) True by fastforce
      have first: "\<forall>j < length ps. 0 \<le> rel ((ps @ [p]) ! j) \<longrightarrow> rel p < rel ((ps @ [p]) ! j)"
        using none(2) True by (fastforce simp: nth_append)
      have "\<exists>i < length (ps @ [p]).
              (rel p, Some (folderUri p)) = (rel ((ps @ [p]) ! i), Some (folderUri ((ps @ [p]) ! i)))
            \<and> 0 \<le> rel ((ps @ [p]) ! i) \<and> rel ((ps @ [p]) ! i) < M
            \<and> (\<forall>q \<in> set (ps @ [p]). 0 \<le> rel q \<longrightarrow> rel ((ps @ [p]) ! i) \<le> rel q)
            \<and> (\<forall>j < i. 0 \<le> rel ((ps @ [p]) ! j) \<longrightarrow> rel ((ps @ [p]) ! i) < rel ((ps @ [p]) ! j))"
        using least first True by (intro exI[of _ "length ps"]) simp
      then show ?thesis using True none(1) unfolding folderInv_def by simp
    next
      case False
      then show ?thesis using none unfolding folderInv_def by auto
    qed
  next
    case some
    show ?thesis
    proof (cases "0 \<le> rel p \<and> rel (ps ! i) > rel p")
      case True
      have least: "\<forall>q \<in> set (ps @ [p]). 0 \<le> rel q \<longrightarrow> rel p \<le> rel q"
        using some(5) True by fastforce
      have first: "\<forall>j < length ps. 0 \<le> rel ((ps @ [p]) ! j) \<longrightarrow> rel p < rel ((ps @ [p]) ! j)"
        using some(5) True by (fastforce simp: nth_append)
      have "\<exists>i < length (ps @ [p]).
              (rel p, Some (folderUri p)) = (rel ((ps @ [p]) ! i), Some (folderUri ((ps @ [p]) ! i)))
            \<and> 0 \<le> rel ((ps @ [p]) ! i) \<and> rel ((ps @ [p]) ! i) < M
            \<and> (\<forall>q \<in> set (ps @ [p]). 0 \<le> rel q \<longrightarrow> rel ((ps @ [p]) ! i) \<le> rel q)
            \<and> (\<forall>j < i. 0 \<le> rel ((ps @ [p]) ! j) \<longrightarrow> rel ((ps @ [p]) ! i) < rel ((ps @ [p]) ! j))"
        using least first True some(4) by (intro exI[of _ "length ps"]) simp
      then show ?thesis using True some(2) unfolding folderInv_def by simp
    next
      case False
      have "\<exists>k < length (ps @ [p]).
              f = (rel ((ps @ [p]) ! k), Some (folderUri ((ps @ [p]) ! k)))
            \<and> 0 \<le> rel ((ps @ [p]) ! k) \<and> rel ((ps @ [p]) ! k) < M
            \<and> (\<forall>q \<in> set (ps @ [p]). 0 \<le> rel q \<longrightarrow> rel ((ps @ [p]) ! k) \<le> rel q)
            \<and> (\<forall>j < k. 0 \<le> rel ((ps @ [p]) ! j) \<longrightarrow> rel ((ps @ [p]) ! k) < rel ((ps @ [p]) ! j))"
        using some False by (intro exI[of _ i]) (auto simp: nth_append)
      then show ?thesis using False some(2) unfolding folderInv_def by auto
    qed
  qed
qed

lemma scan_folderInv:
  "folderInv (\<lambda>p. path_relativity ops (uri_path ops (folderUri p)) rp) M ps
     (fst (scanProviders ops rp ps (M, None) g))"
proof (induction ps rule: rev_induct)
  case Nil
  then show ?case by (simp add: folderInv_def)
next
  case (snoc p ps)
  show ?case
    using folderInv_step[OF snoc.IH, of p] by (simp add: scan_snoc chooseFolder_def)
qed

lemma getFolderProviders_unfold:
  assumes "r \<noteq> []"
  shows "getFolderProviders ops reg (Some r) =
           (case snd (fst (scanProviders ops (uri_path ops r) (map snd reg) (MAX_SAFE_INTEGER, None) [])) of
              None \<Rightarrow> []
            | Some u \<Rightarrow> if u = [] then [] else [p \<leftarrow> map snd reg. folderUri p = u])"
proof -
  obtain f g where sc:
    "scanProviders ops (uri_path ops r) (map snd reg) (MAX_SAFE_INTEGER, None) [] = (f, g)"
    by (cases "scanProviders ops (uri_path ops r) (map snd reg) (MAX_SAFE_INTEGER, None) []")
  have "groupOf (snd (scanProviders ops (uri_path ops r) (map snd reg) (MAX_SAFE_INTEGER, None) [])) u
          = [p \<leftarrow> map snd reg. folderUri p = u]" for u
    by (simp add: scan_groups) (simp add: groupOf_def)
  then have g: "(case map_of g u of Some l \<Rightarrow> l | None \<Rightarrow> []) = [p \<leftarrow> map snd reg. folderUri p = u]" for u
    by (simp add: sc groupOf_def)
  show ?thesis
    using assms by (simp add: getFolderProviders_def sc g split: option.splits)
qed

lemma getFolderProviders_none:
  assumes "r \<noteq> []"
    and "\<forall>p \<in> set (map snd reg). \<not> (0 \<le> relativityOf ops r p \<and> relativityOf ops r p < MAX_SAFE_INTEGER)"
  shows "getFolderProviders ops reg (Some r) = []"
proof -
  have "folderInv (relativityOf ops r) MAX_SAFE_INTEGER (map snd reg)
          (fst (scanProviders ops (uri_path ops r) (map snd reg) (MAX_SAFE_INTEGER, None) []))"
    by (rule scan_folderInv)
  then have "fst (scanProviders ops (uri_path ops r) (map snd reg) (MAX_SAFE_INTEGER, None) [])
               = (MAX_SAFE_INTEGER, None)"
    unfolding folderInv_def using assms(2) by (metis nth_mem)
  then show ?thesis by (simp add: getFolderProviders_unfold[OF assms(1)])
qed

lemma getFolderProviders_some:
  assumes "r \<noteq> []"
    and "\<exists>p \<in> set (map snd reg). 0 \<le> relativityOf ops r p \<and> relativityOf ops r p < MAX_SAFE_INTEGER"
  shows "\<exists>i < length reg.
           0 \<le> relativityOf ops r (snd (reg ! i))
         \<and> relativityOf ops r (snd (reg ! i)) < MAX_SAFE_INTEGER
         \<and> (\<forall>q \<in> set (map snd reg). 0 \<le> relativityOf ops r q
               \<longrightarrow> relativityOf ops r (snd (reg ! i)) \<le> relativityOf ops r q)
         \<and> (\<forall>j < i. 0 \<le> relativityOf ops r (snd (reg ! j))
               \<longrightarrow> relativityOf ops r (snd (reg ! i)) < relativityOf ops r (snd (reg ! j)))
         \<and> getFolderProviders ops reg (Some r) =
             (if folderUri (snd (reg ! i)) = [] then []
              else [p \<leftarrow> map snd reg. folderUri p = folderUri (snd (reg ! i))])"
proof -
  let ?f = "fst (scanProviders ops (uri_path ops r) (map snd reg) (MAX_SAFE_INTEGER, None) [])"
  have inv: "folderInv (relativityOf ops r) MAX_SAFE_INTEGER (map snd reg) ?f"
    by (rule scan_folderInv)
  from inv assms(2) obtain i where i: "i < length (map snd reg)"
      "?f = (relativityOf ops r (map snd reg ! i), Some (folderUri (map snd reg ! i)))"
      "0 \<le> relativityOf ops r (map snd reg ! i)" "relativityOf ops r (map snd reg ! i) < MAX_SAFE_INTEGER"
      "\<forall>q \<in> set (map snd reg). 0 \<le> relativityOf ops r q \<longrightarrow> relativityOf ops r (map snd reg ! i) \<le> relativityOf ops r q"
      "\<forall>j < i. 0 \<le> relativityOf ops r (map snd reg ! j) \<longrightarrow> relativityOf ops r (map snd reg ! i) < relativityOf ops r (map snd reg ! j)"
    unfolding folderInv_def by blast
  have len: "i < length reg" using i(1) by simp
  have nth: "map snd reg ! j = snd (reg ! j)" if "j \<le> i" for j
    using that len by simp
  have res: "getFolderProviders ops reg (Some r) =
             (if folderUri (snd (reg ! i)) = [] then []
              else [p \<leftarrow> map snd reg. folderUri p = folderUri (snd (reg ! i))])"
    using i(2) nth[of i] by (simp add: getFolderProviders_unfold[OF assms(1)])
  show ?thesis
    using len i(3-6) res nth by (intro exI[of _ i]) auto
qed


text \<open>
  C3. With a resource URI given, the selector returns exactly the providers of one registered
  folder: a folder that is an ancestor of (or equal to) the resource, that is of non-negative
  relativity, and of the least relativity among such folders. Providers of folders that are
  not ancestors are never returned, and the result is empty when no folder qualifies or no
  resource URI is given. Relativities are segment counts, below \<open>MAX_SAFE_INTEGER\<close>, and the
  string form of a folder URI is not empty.
\<close>

theorem getFolderProviders_most_specific:
  assumes bounded: "\<forall>p \<in> set (map snd reg). relativityOf ops r p < MAX_SAFE_INTEGER"
    and named: "\<forall>p \<in> set (map snd reg). folderUri p \<noteq> []"
    and given: "r \<noteq> []"
  shows "(if \<exists>p \<in> set (map snd reg). 0 \<le> relativityOf ops r p
          then \<exists>w \<in> set (map snd reg).
                 0 \<le> relativityOf ops r w
               \<and> (\<forall>q \<in> set (map snd reg). 0 \<le> relativityOf ops r q
                     \<longrightarrow> relativityOf ops r w \<le> relativityOf ops r q)
               \<and> getFolderProviders ops reg (Some r) =
                   [p \<leftarrow> map snd reg. folderUri p = folderUri w]
          else getFolderProviders ops reg (Some r) = [])
       \<and> (\<forall>p \<in> set (getFolderProviders ops reg (Some r)). 0 \<le> relativityOf ops r p)
       \<and> getFolderProviders ops reg None = []
       \<and> getFolderProviders ops reg (Some []) = []"
proof -
  have empty: "getFolderProviders ops reg None = []" "getFolderProviders ops reg (Some []) = []"
    by (simp_all add: getFolderProviders_def)
  show ?thesis
  proof (cases "\<exists>p \<in> set (map snd reg). 0 \<le> relativityOf ops r p")
    case False
    have "getFolderProviders ops reg (Some r) = []"
    proof (rule getFolderProviders_none[OF given])
      show "\<forall>p \<in> set (map snd reg).
              \<not> (0 \<le> relativityOf ops r p \<and> relativityOf ops r p < MAX_SAFE_INTEGER)"
        using False by auto
    qed
    then show ?thesis using False empty by simp
  next
    case True
    then have "\<exists>p \<in> set (map snd reg).
                 0 \<le> relativityOf ops r p \<and> relativityOf ops r p < MAX_SAFE_INTEGER"
      using bounded by auto
    from getFolderProviders_some[OF given this] obtain i where i: "i < length reg"
      "0 \<le> relativityOf ops r (snd (reg ! i))"
      "\<forall>q \<in> set (map snd reg). 0 \<le> relativityOf ops r q
          \<longrightarrow> relativityOf ops r (snd (reg ! i)) \<le> relativityOf ops r q"
      "getFolderProviders ops reg (Some r) =
         (if folderUri (snd (reg ! i)) = [] then []
          else [p \<leftarrow> map snd reg. folderUri p = folderUri (snd (reg ! i))])"
      by blast
    have mem: "snd (reg ! i) \<in> set (map snd reg)"
      using i(1) by (metis length_map nth_map nth_mem)
    then have res: "getFolderProviders ops reg (Some r) =
                      [p \<leftarrow> map snd reg. folderUri p = folderUri (snd (reg ! i))]"
      using i(4) named by auto
    have anc: "\<forall>p \<in> set (getFolderProviders ops reg (Some r)). 0 \<le> relativityOf ops r p"
      using i(2) by (simp add: res)
    have "\<exists>w \<in> set (map snd reg).
            0 \<le> relativityOf ops r w
          \<and> (\<forall>q \<in> set (map snd reg). 0 \<le> relativityOf ops r q
                \<longrightarrow> relativityOf ops r w \<le> relativityOf ops r q)
          \<and> getFolderProviders ops reg (Some r) = [p \<leftarrow> map snd reg. folderUri p = folderUri w]"
      using mem i(2,3) res by blast
    then show ?thesis using True anc empty by simp
  qed
qed

theorem getFolderProviders_most_specific_witness:
  "map (\<lambda>p. provider_getConfigUri p None)
     (getFolderProviders sampleOps nestedRegistry (Some ''file:///a/b/c.ts'')) =
   [Some ''file:///a/b/.kt/launch.json'', Some ''file:///a/b/.kt/settings.json'']"
proof -
  let ?r = "''file:///a/b/c.ts''"
  have bounded: "\<forall>p \<in> set (map snd nestedRegistry). relativityOf sampleOps ?r p < MAX_SAFE_INTEGER"
    by code_simp
  have named: "\<forall>p \<in> set (map snd nestedRegistry). folderUri p \<noteq> []"
    by code_simp
  have given: "?r \<noteq> []" by simp
  have some: "\<exists>p \<in> set (map snd nestedRegistry). 0 \<le> relativityOf sampleOps ?r p"
    by code_simp
  have "\<exists>w \<in> set (map snd nestedRegistry).
          0 \<le> relativityOf sampleOps ?r w
        \<and> (\<forall>q \<in> set (map snd nestedRegistry). 0 \<le> relativityOf sampleOps ?r q
              \<longrightarrow> relativityOf sampleOps ?r w \<le> relativityOf sampleOps ?r q)
        \<and> getFolderProviders sampleOps nestedRegistry (Some ?r) =
            [p \<leftarrow> map snd nestedRegistry. folderUri p = folderUri w]"
    using getFolderProviders_most_specific[OF bounded named given]
    unfolding if_P[OF some] by (rule conjunct1)
  then obtain w where w: "w \<in> set (map snd nestedRegistry)"
    "\<forall>q \<in> set (map snd nestedRegistry). 0 \<le> relativityOf sampleOps ?r q
        \<longrightarrow> relativityOf sampleOps ?r w \<le> relativityOf sampleOps ?r q"
    "getFolderProviders sampleOps nestedRegistry (Some ?r) =
       [p \<leftarrow> map snd nestedRegistry. folderUri p = folderUri w]"
    by blast
  have close: "\<exists>q \<in> set (map snd nestedRegistry).
                 0 \<le> relativityOf sampleOps ?r q \<and> relativityOf sampleOps ?r q = 1"
    by code_simp
  have only: "\<forall>q \<in> set (map snd nestedRegistry).
                relativityOf sampleOps ?r q \<le> 1 \<longrightarrow> folderUri q = ''file:///a/b''"
    by code_simp
  from close obtain q where q: "q \<in> set (map snd nestedRegistry)"
    "0 \<le> relativityOf sampleOps ?r q" "relativityOf sampleOps ?r q = 1"
    by blast
  have "relativityOf sampleOps ?r w \<le> relativityOf sampleOps ?r q"
    using w(2) q(1,2) by blast
  then have "relativityOf sampleOps ?r w \<le> 1"
    by (simp only: q(3))
  then have uri: "folderUri w = ''file:///a/b''"
    using only w(1) by blast
  have "map (\<lambda>p. provider_getConfigUri p None)
                   [p \<leftarrow> map snd nestedRegistry. folderUri p = ''file:///a/b''] =
                 [Some ''file:///a/b/.kt/launch.json'', Some ''file:///a/b/.kt/settings.json'']"
    by code_simp
  then show ?thesis by (simp only: w(3) uri)
qed

text \<open>
  C9. When several registered folders reach the least non-negative relativity, the selector
  takes the folder of the provider that comes first in the registry's insertion order: an equal
  score does not replace the current choice. For the first entry \<open>i\<close> of least non-negative
  relativity, the result is the providers of the folder of entry \<open>i\<close>.
\<close>

theorem getFolderProviders_first_registered_wins:
  assumes given: "r \<noteq> []"
    and bounded: "\<forall>p \<in> set (map snd reg). relativityOf ops r p < MAX_SAFE_INTEGER"
    and named: "\<forall>p \<in> set (map snd reg). folderUri p \<noteq> []"
    and entry: "i < length reg"
    and ancestor: "0 \<le> relativityOf ops r (snd (reg ! i))"
    and least: "\<forall>q \<in> set (map snd reg). 0 \<le> relativityOf ops r q
                  \<longrightarrow> relativityOf ops r (snd (reg ! i)) \<le> relativityOf ops r q"
    and first: "\<forall>q \<in> set (map snd (take i reg)).
                  relativityOf ops r q \<noteq> relativityOf ops r (snd (reg ! i))"
  shows "getFolderProviders ops reg (Some r) =
           [p \<leftarrow> map snd reg. folderUri p = folderUri (snd (reg ! i))]"
proof -
  have mem: "snd (reg ! j) \<in> set (map snd reg)" if "j < length reg" for j
    using that by (metis length_map nth_map nth_mem)
  have "\<exists>p \<in> set (map snd reg).
          0 \<le> relativityOf ops r p \<and> relativityOf ops r p < MAX_SAFE_INTEGER"
    using mem[OF entry] ancestor bounded by blast
  from getFolderProviders_some[OF given this] obtain k where k: "k < length reg"
    "0 \<le> relativityOf ops r (snd (reg ! k))"
    "\<forall>q \<in> set (map snd reg). 0 \<le> relativityOf ops r q
        \<longrightarrow> relativityOf ops r (snd (reg ! k)) \<le> relativityOf ops r q"
    "\<forall>j < k. 0 \<le> relativityOf ops r (snd (reg ! j))
        \<longrightarrow> relativityOf ops r (snd (reg ! k)) < relativityOf ops r (snd (reg ! j))"
    "getFolderProviders ops reg (Some r) =
       (if folderUri (snd (reg ! k)) = [] then []
        else [p \<leftarrow> map snd reg. folderUri p = folderUri (snd (reg ! k))])"
    by blast
  have "relativityOf ops r (snd (reg ! k)) \<le> relativityOf ops r (snd (reg ! i))"
    using k(3) ancestor mem[OF entry] by blast
  moreover have "relativityOf ops r (snd (reg ! i)) \<le> relativityOf ops r (snd (reg ! k))"
    using least k(2) mem[OF k(1)] by blast
  ultimately have same: "relativityOf ops r (snd (reg ! k)) = relativityOf ops r (snd (reg ! i))"
    by simp
  have "\<not> k < i"
  proof
    assume "k < i"
    then have "snd (reg ! k) \<in> set (map snd (take i reg))"
      using entry by (metis (no_types, lifting) length_map length_take min.absorb2 nth_map nth_mem
          nth_take order_less_imp_le)
    then show False using first same by blast
  qed
  moreover have "\<not> i < k"
    using k(4) ancestor same by force
  ultimately have "k = i" by simp
  then show ?thesis using k(5) named mem[OF entry] by auto
qed

theorem getFolderProviders_first_registered_wins_witness:
  "map (\<lambda>p. provider_getConfigUri p None)
     (getFolderProviders sampleOps tiedRegistry (Some ''file:///a/b/c.ts'')) =
   [Some ''file:///a/b/.kt/settings.json'', Some ''file:///a/b/.kt/launch.json'']
   \<and> relativityOf sampleOps ''file:///a/b/c.ts'' (snd (tiedRegistry ! 1)) =
     relativityOf sampleOps ''file:///a/b/c.ts'' (snd (tiedRegistry ! 2))"
proof -
  let ?r = "''file:///a/b/c.ts''"
  have given: "?r \<noteq> []" by simp
  have bounded: "\<forall>p \<in> set (map snd tiedRegistry). relativityOf sampleOps ?r p < MAX_SAFE_INTEGER"
    by code_simp
  have named: "\<forall>p \<in> set (map snd tiedRegistry). folderUri p \<noteq> []"
    by code_simp
  have entry: "1 < length tiedRegistry" by code_simp
  have ancestor: "0 \<le> relativityOf sampleOps ?r (snd (tiedRegistry ! 1))" by code_simp
  have least: "\<forall>q \<in> set (map snd tiedRegistry). 0 \<le> relativityOf sampleOps ?r q
                  \<longrightarrow> relativityOf sampleOps ?r (snd (tiedRegistry ! 1)) \<le> relativityOf sampleOps ?r q"
    by code_simp
  have first: "\<forall>q \<in> set (map snd (take 1 tiedRegistry)).
                  relativityOf sampleOps ?r q \<noteq> relativityOf sampleOps ?r (snd (tiedRegistry ! 1))"
    by code_simp
  have res: "getFolderProviders sampleOps tiedRegistry (Some ?r) =
           [p \<leftarrow> map snd tiedRegistry. folderUri p = folderUri (snd (tiedRegistry ! 1))]"
    by (rule getFolderProviders_first_registered_wins[OF given bounded named entry ancestor least first])
  have ev: "map (\<lambda>p. provider_getConfigUri p None)
          [p \<leftarrow> map snd tiedRegistry. folderUri p = folderUri (snd (tiedRegistry ! 1))] =
        [Some ''file:///a/b/.kt/settings.json'', Some ''file:///a/b/.kt/launch.json'']"
    by code_simp
  have tie: "relativityOf sampleOps ?r (snd (tiedRegistry ! 1)) =
     relativityOf sampleOps ?r (snd (tiedRegistry ! 2))"
    by code_simp
  show ?thesis using ev tie by (simp only: res)
qed

section \<open>Properties of the grouping\<close>

lemma update_absent: "k \<notin> fst ` set al \<Longrightarrow> AList.update k v al = al @ [(k, v)]"
  by (induction al) auto

lemma update_present: "k \<in> set ks \<Longrightarrow> AList.update k (F k) (map (\<lambda>n. (n, F n)) ks) = map (\<lambda>n. (n, F n)) ks"
  by (induction ks) auto

lemma group_fold:
  "foldl (\<lambda>groups n. AList.update n (F n) groups) [] names =
     map (\<lambda>n. (n, F n)) (rev (remdups (rev names)))"
proof (induction names rule: rev_induct)
  case Nil
  then show ?case by simp
next
  case (snoc x names)
  show ?case
  proof (cases "x \<in> set names")
    case True
    then show ?thesis using snoc by (simp add: update_present)
  next
    case False
    then have "x \<notin> fst ` set (map (\<lambda>n. (n, F n)) (rev (remdups (rev names))))"
      by (simp add: image_image)
    then show ?thesis using False snoc by (simp add: update_absent)
  qed
qed

lemma groupProvidersByConfigName_eq:
  "groupProvidersByConfigName ops cfg reg resourceUri =
     map (\<lambda>configName.
            (configName, groupNamed cfg (getFolderProviders ops reg resourceUri) configName))
       (rev (remdups (rev (getConfigName cfg # getSectionNames cfg))))"
  unfolding groupProvidersByConfigName_def Let_def groupNamed_def by (rule group_fold)

lemma resolve_walk:
  "resolve ops cfg reg preferenceName resourceUri =
     foldl (\<lambda>result configName.
              resolveGroup preferenceName resourceUri
                (groupNamed cfg (getFolderProviders ops reg resourceUri) configName) result)
       \<lparr> rr_value = None, rr_configUri = None \<rparr>
       (rev (remdups (rev (getConfigName cfg # getSectionNames cfg))))"
  unfolding resolve_def groupProvidersByConfigName_eq by (simp add: foldl_map comp_def)

lemma getPreferences_walk:
  "getPreferences ops cfg reg resourceUri =
     foldl (\<lambda>result configName.
              preferencesOfGroup resourceUri
                (groupNamed cfg (getFolderProviders ops reg resourceUri) configName) result)
       (JObj [])
       (rev (remdups (rev (getConfigName cfg # getSectionNames cfg))))"
  unfolding getPreferences_def groupProvidersByConfigName_eq by (simp add: foldl_map comp_def)

text \<open>
  C1 (as amended). The groups are one per name, in the order: the default config name first,
  then the declared section names in their declared order (a name that occurs again keeps its
  first position). Each group holds the selected folder's providers of that name, in selector
  order, and \<^verbatim>\<open>resolve\<close> and \<^verbatim>\<open>getPreferences\<close> walk the groups in this order.
\<close>

theorem groupProvidersByConfigName_default_first:
  "groupProvidersByConfigName ops cfg reg resourceUri =
     map (\<lambda>configName.
            (configName,
             [p \<leftarrow> getFolderProviders ops reg resourceUri.
                getName cfg (provider_getConfigUri p None) = configName]))
       (rev (remdups (rev (getConfigName cfg # getSectionNames cfg))))
   \<and> resolve ops cfg reg preferenceName resourceUri =
     foldl (\<lambda>result configName.
              resolveGroup preferenceName resourceUri
                [p \<leftarrow> getFolderProviders ops reg resourceUri.
                   getName cfg (provider_getConfigUri p None) = configName]
                result)
       \<lparr> rr_value = None, rr_configUri = None \<rparr>
       (rev (remdups (rev (getConfigName cfg # getSectionNames cfg))))
   \<and> getPreferences ops cfg reg resourceUri =
     foldl (\<lambda>result configName.
              preferencesOfGroup resourceUri
                [p \<leftarrow> getFolderProviders ops reg resourceUri.
                   getName cfg (provider_getConfigUri p None) = configName]
                result)
       (JObj [])
       (rev (remdups (rev (getConfigName cfg # getSectionNames cfg))))"
  by (simp only: groupProvidersByConfigName_eq resolve_walk getPreferences_walk groupNamed_def)

theorem groupProvidersByConfigName_default_first_witness:
  "map (\<lambda>(configName, group). (configName, map (\<lambda>p. provider_getConfigUri p None) group))
     (groupProvidersByConfigName sampleOps (sampleConfigurations []) nestedRegistry
        (Some ''file:///a/b/c.ts'')) =
   [(''settings'', [Some ''file:///a/b/.kt/settings.json'']),
    (''launch'', [Some ''file:///a/b/.kt/launch.json'']),
    (''tasks'', [])]"
proof -
  have ev: "map (\<lambda>(configName, group). (configName, map (\<lambda>p. provider_getConfigUri p None) group))
     (map (\<lambda>configName.
            (configName,
             [p \<leftarrow> getFolderProviders sampleOps nestedRegistry (Some ''file:///a/b/c.ts'').
                getName (sampleConfigurations []) (provider_getConfigUri p None) = configName]))
       (rev (remdups (rev (getConfigName (sampleConfigurations []) # getSectionNames (sampleConfigurations [])))))) =
   [(''settings'', [Some ''file:///a/b/.kt/settings.json'']),
    (''launch'', [Some ''file:///a/b/.kt/launch.json'']),
    (''tasks'', [])]"
    by code_simp
  show ?thesis
    using groupProvidersByConfigName_default_first[of sampleOps "sampleConfigurations []" nestedRegistry
        "Some ''file:///a/b/c.ts''" "''x''"] ev
    by (simp only:)
qed

text \<open>The order the claim states, sections first and the default config name last, is not
  the order of the groups.\<close>

theorem groupProvidersByConfigName_sections_first_counterexample:
  "map fst (groupProvidersByConfigName sampleOps (sampleConfigurations []) nestedRegistry
              (Some ''file:///a/b/c.ts'')) = [''settings'', ''launch'', ''tasks'']
   \<and> getSectionNames (sampleConfigurations []) @ [getConfigName (sampleConfigurations [])] =
       [''launch'', ''tasks'', ''settings'']
   \<and> map fst (groupProvidersByConfigName sampleOps (sampleConfigurations []) nestedRegistry
              (Some ''file:///a/b/c.ts''))
       \<noteq> getSectionNames (sampleConfigurations []) @ [getConfigName (sampleConfigurations [])]"
  by code_simp

section \<open>Properties of the resolution engine\<close>

lemma resolveGroup_contribution:
  "resolveGroup n r grp result =
     (case firstContribution n r grp of
        None \<Rightarrow> result
      | Some c \<Rightarrow> (case rr_value c of
          None \<Rightarrow> result
        | Some v \<Rightarrow> \<lparr> rr_value = Some (merge (rr_value result) v), rr_configUri = rr_configUri c \<rparr>))"
  by (induction grp)
     (auto simp: firstContribution_def contributes_def Let_def split: option.splits)

lemma firstContribution_value:
  "firstContribution n r grp = Some c \<Longrightarrow> rr_value c \<noteq> None \<and> rr_configUri c \<noteq> None"
  by (auto simp: firstContribution_def contributes_def dest: find_Some_iff[THEN iffD1])

lemma remdups_snoc: "remdups (ys @ [x]) = remdups [y \<leftarrow> ys. y \<noteq> x] @ [x]"
  by (induction ys) auto

lemma default_first:
  "rev (remdups (rev (x # xs))) = x # rev (remdups (rev [y \<leftarrow> xs. y \<noteq> x]))"
  by (simp add: remdups_snoc rev_filter)

lemma foldl_unchanged:
  "(\<And>x acc. x \<in> set xs \<Longrightarrow> step acc x = acc) \<Longrightarrow> foldl step acc xs = acc"
  by (induction xs arbitrary: acc) auto

lemma foldl_single:
  assumes "distinct xs" and "s \<in> set xs" and "\<And>x acc. x \<in> set xs \<Longrightarrow> x \<noteq> s \<Longrightarrow> step acc x = acc"
  shows "foldl step acc xs = step acc s"
  using assms
proof (induction xs arbitrary: acc)
  case Nil
  then show ?case by simp
next
  case (Cons a xs)
  show ?case
  proof (cases "a = s")
    case True
    then have "s \<notin> set xs" using Cons.prems(1) by simp
    then have "foldl step acc' xs = acc'" for acc'
      using Cons.prems(3) by (intro foldl_unchanged) auto
    then show ?thesis using True by simp
  next
    case False
    then have "step acc a = acc" using Cons.prems(3) by simp
    moreover have "foldl step acc xs = step acc s"
      using Cons False by auto
    ultimately show ?thesis by simp
  qed
qed

lemma not_both_objects: "\<not> (\<exists>a b. x = JObj a \<and> y = JObj b) \<Longrightarrow> merge_json x y = y"
  by (cases x; cases y) auto

text \<open>
  C2 (as amended). When, for the selected folder, the default-config group and the group of
  a section both contribute a value for a preference and no other section group does,
  \<^verbatim>\<open>resolve\<close> returns the section provider's value merged over the default-config provider's
  value, with the section provider's config URI. The merged value is the section provider's
  value itself unless both values are objects.
\<close>

theorem resolve_section_over_default:
  assumes declared: "sectionName \<in> set (getSectionNames cfg)" "sectionName \<noteq> getConfigName cfg"
    and default_value:
      "firstContribution n r (groupNamed cfg (getFolderProviders ops reg r) (getConfigName cfg)) =
         Some \<lparr> rr_value = Some vd, rr_configUri = Some ud \<rparr>"
    and section_value:
      "firstContribution n r (groupNamed cfg (getFolderProviders ops reg r) sectionName) =
         Some \<lparr> rr_value = Some vs, rr_configUri = Some us \<rparr>"
    and others:
      "\<forall>name \<in> set (getSectionNames cfg). name \<noteq> sectionName \<longrightarrow> name \<noteq> getConfigName cfg \<longrightarrow>
         firstContribution n r (groupNamed cfg (getFolderProviders ops reg r) name) = None"
  shows "resolve ops cfg reg n r = \<lparr> rr_value = Some (merge_json vd vs), rr_configUri = Some us \<rparr>
       \<and> (\<not> (\<exists>a b. vd = JObj a \<and> vs = JObj b) \<longrightarrow> merge_json vd vs = vs)"
proof -
  let ?G = "groupNamed cfg (getFolderProviders ops reg r)"
  let ?step = "\<lambda>result configName. resolveGroup n r (?G configName) result"
  let ?others = "rev (remdups (rev [y \<leftarrow> getSectionNames cfg. y \<noteq> getConfigName cfg]))"
  have first: "?step \<lparr> rr_value = None, rr_configUri = None \<rparr> (getConfigName cfg) =
                 \<lparr> rr_value = Some vd, rr_configUri = Some ud \<rparr>"
    by (simp add: resolveGroup_contribution default_value)
  have "distinct ?others" by simp
  moreover have "sectionName \<in> set ?others" using declared by simp
  moreover have "?step acc x = acc" if "x \<in> set ?others" "x \<noteq> sectionName" for x acc
    using that others by (simp add: resolveGroup_contribution)
  ultimately have "foldl ?step \<lparr> rr_value = Some vd, rr_configUri = Some ud \<rparr> ?others =
                     ?step \<lparr> rr_value = Some vd, rr_configUri = Some ud \<rparr> sectionName"
    by (rule foldl_single)
  moreover have "resolve ops cfg reg n r =
                   foldl ?step (?step \<lparr> rr_value = None, rr_configUri = None \<rparr> (getConfigName cfg)) ?others"
    by (simp only: resolve_walk default_first foldl_Cons)
  ultimately have "resolve ops cfg reg n r =
                     ?step \<lparr> rr_value = Some vd, rr_configUri = Some ud \<rparr> sectionName"
    by (simp only: first)
  then show ?thesis
    by (simp add: resolveGroup_contribution section_value not_both_objects)
qed


theorem resolve_section_over_default_witness:
  "resolve sampleOps (sampleConfigurations []) launchRegistry ''launch.foo'' (Some ''file:///a/x.ts'') =
     \<lparr> rr_value = Some (JNum 2), rr_configUri = Some ''file:///a/.kt/launch.json'' \<rparr>"
proof -
  let ?cfg = "sampleConfigurations []"
  let ?r = "Some ''file:///a/x.ts''"
  have declared: "''launch'' \<in> set (getSectionNames ?cfg)" "''launch'' \<noteq> getConfigName ?cfg"
    by code_simp+
  have default_value:
    "firstContribution ''launch.foo'' ?r
       (groupNamed ?cfg (getFolderProviders sampleOps launchRegistry ?r) (getConfigName ?cfg)) =
     Some \<lparr> rr_value = Some (JNum 1), rr_configUri = Some ''file:///a/.kt/settings.json'' \<rparr>"
    by code_simp
  have section_value:
    "firstContribution ''launch.foo'' ?r
       (groupNamed ?cfg (getFolderProviders sampleOps launchRegistry ?r) ''launch'') =
     Some \<lparr> rr_value = Some (JNum 2), rr_configUri = Some ''file:///a/.kt/launch.json'' \<rparr>"
    by code_simp
  have others:
    "\<forall>name \<in> set (getSectionNames ?cfg). name \<noteq> ''launch'' \<longrightarrow> name \<noteq> getConfigName ?cfg \<longrightarrow>
       firstContribution ''launch.foo'' ?r
         (groupNamed ?cfg (getFolderProviders sampleOps launchRegistry ?r) name) = None"
    by code_simp
  have "merge_json (JNum 1) (JNum 2) = JNum 2" by simp
  then show ?thesis
    using resolve_section_over_default[OF declared default_value section_value others]
    by (simp only:)
qed

text \<open>With object values the result is not the section provider's value: the keys that only
  the default-config provider defines are kept.\<close>

theorem resolve_section_value_counterexample:
  "resolve sampleOps (sampleConfigurations []) objectRegistry ''launch.foo'' (Some ''file:///a/x.ts'') =
     \<lparr> rr_value = Some (JObj [(''a'', JNum 1), (''b'', JNum 2)]),
       rr_configUri = Some ''file:///a/.kt/launch.json'' \<rparr>
   \<and> provider_resolve (snd (objectRegistry ! 0)) ''launch.foo'' (Some ''file:///a/x.ts'') =
     \<lparr> rr_value = Some (JObj [(''b'', JNum 2)]),
       rr_configUri = Some ''file:///a/.kt/launch.json'' \<rparr>
   \<and> provider_resolve (snd (objectRegistry ! 2)) ''launch.foo'' (Some ''file:///a/x.ts'') =
     \<lparr> rr_value = Some (JObj [(''a'', JNum 1)]),
       rr_configUri = Some ''file:///a/.kt/settings.json'' \<rparr>
   \<and> rr_value (resolve sampleOps (sampleConfigurations []) objectRegistry ''launch.foo''
                 (Some ''file:///a/x.ts''))
       \<noteq> rr_value (provider_resolve (snd (objectRegistry ! 0)) ''launch.foo'' (Some ''file:///a/x.ts''))"
  by code_simp

section \<open>Properties of the merge\<close>

lemma map_of_merge_fields:
  "map_of (merge_fields a b) k =
     (case map_of a k of
        None \<Rightarrow> None
      | Some x \<Rightarrow> Some (case map_of b k of None \<Rightarrow> x | Some y \<Rightarrow> merge_json x y))"
  by (induction a) (auto split: option.splits)

lemma map_of_new_fields:
  "map_of [(k, v) \<leftarrow> b. map_of a k = None] k' = (if map_of a k' = None then map_of b k' else None)"
  by (induction b) auto

lemma field_merge_json:
  "field (merge_json (JObj a) (JObj b)) k =
     (case map_of a k of
        None \<Rightarrow> map_of b k
      | Some x \<Rightarrow> Some (case map_of b k of None \<Rightarrow> x | Some y \<Rightarrow> merge_json x y))"
  by (simp add: map_add_def map_of_merge_fields map_of_new_fields split: option.splits)

lemma merge_json_objects: "\<exists>c. merge_json (JObj a) (JObj b) = JObj c"
  by simp

lemma field_foldl_merge:
  "field (foldl merge_json (JObj a) (map JObj fs)) k =
     (case List.map_filter (\<lambda>f. map_of f k) (a # fs) of
        [] \<Rightarrow> None
      | v # vs \<Rightarrow> Some (foldl merge_json v vs))"
proof (induction fs arbitrary: a)
  case Nil
  then show ?case by (simp split: option.splits)
next
  case (Cons b fs)
  obtain c where c: "merge_json (JObj a) (JObj b) = JObj c"
    using merge_json_objects by blast
  have ck: "map_of c k =
     (case map_of a k of
        None \<Rightarrow> map_of b k
      | Some x \<Rightarrow> Some (case map_of b k of None \<Rightarrow> x | Some y \<Rightarrow> merge_json x y))"
    using field_merge_json[of a b k] by (simp only: c field.simps)
  have "field (foldl merge_json (JObj a) (map JObj (b # fs))) k =
        field (foldl merge_json (JObj c) (map JObj fs)) k"
    by (simp only: list.map foldl_Cons c)
  also have "\<dots> = (case List.map_filter (\<lambda>f. map_of f k) (c # fs) of
        [] \<Rightarrow> None
      | v # vs \<Rightarrow> Some (foldl merge_json v vs))"
    by (rule Cons.IH)
  also have "\<dots> = (case List.map_filter (\<lambda>f. map_of f k) (a # b # fs) of
        [] \<Rightarrow> None
      | v # vs \<Rightarrow> Some (foldl merge_json v vs))"
    by (simp add: ck split: option.splits)
  finally show ?case .
qed

lemma preferencesOfGroup_contribution:
  "preferencesOfGroup r grp result =
     (case groupPreferences r grp of
        None \<Rightarrow> result
      | Some prefs \<Rightarrow> merge_json result (JObj prefs))"
  by (induction grp) (auto simp: groupPreferences_def split: option.splits)

lemma foldl_contributions:
  "foldl (\<lambda>result name. case c name of None \<Rightarrow> result | Some prefs \<Rightarrow> merge_json result (JObj prefs))
     acc names =
   foldl merge_json acc (map JObj (List.map_filter c names))"
  by (induction names arbitrary: acc) (auto split: option.splits)

text \<open>
  C7. \<^verbatim>\<open>getPreferences\<close> merges, in the order of the groups, the whole preference mapping that
  each contributing group gives, with the deep right-biased merge. A key of the result has
  the value of the one contribution that defines it, or else the merge, in order, of the
  values of the contributions that define it; and a merge of two values is the later value
  unless both are objects.
\<close>

theorem getPreferences_merges_groups:
  "getPreferences ops cfg reg r =
     foldl merge_json (JObj [])
       (map JObj
          (List.map_filter
             (\<lambda>name. groupPreferences r (groupNamed cfg (getFolderProviders ops reg r) name))
             (rev (remdups (rev (getConfigName cfg # getSectionNames cfg))))))
   \<and> field (getPreferences ops cfg reg r) k =
     (case List.map_filter (\<lambda>f. map_of f k)
             (List.map_filter
                (\<lambda>name. groupPreferences r (groupNamed cfg (getFolderProviders ops reg r) name))
                (rev (remdups (rev (getConfigName cfg # getSectionNames cfg))))) of
        [] \<Rightarrow> None
      | v # vs \<Rightarrow> Some (foldl merge_json v vs))
   \<and> (\<not> (\<exists>a b. x = JObj a \<and> y = JObj b) \<longrightarrow> merge_json x y = y)"
proof -
  let ?c = "\<lambda>name. groupPreferences r (groupNamed cfg (getFolderProviders ops reg r) name)"
  let ?names = "rev (remdups (rev (getConfigName cfg # getSectionNames cfg)))"
  have eq: "getPreferences ops cfg reg r =
              foldl merge_json (JObj []) (map JObj (List.map_filter ?c ?names))"
    unfolding getPreferences_walk preferencesOfGroup_contribution
    by (rule foldl_contributions)
  have "field (getPreferences ops cfg reg r) k =
     (case List.map_filter (\<lambda>f. map_of f k) ([] # List.map_filter ?c ?names) of
        [] \<Rightarrow> None
      | v # vs \<Rightarrow> Some (foldl merge_json v vs))"
    unfolding eq by (rule field_foldl_merge)
  then have "field (getPreferences ops cfg reg r) k =
     (case List.map_filter (\<lambda>f. map_of f k) (List.map_filter ?c ?names) of
        [] \<Rightarrow> None
      | v # vs \<Rightarrow> Some (foldl merge_json v vs))"
    by simp
  then show ?thesis using eq not_both_objects by blast
qed

theorem getPreferences_merges_groups_witness:
  "getPreferences sampleOps (sampleConfigurations []) nestedRegistry (Some ''file:///a/b/c.ts'') =
     JObj [(''x'', JNum 1), (''y'', JNum 2)]
   \<and> provider_getPreferences (snd (nestedRegistry ! 3)) None = [(''x'', JNum 1)]
   \<and> provider_getPreferences (snd (nestedRegistry ! 2)) None = [(''y'', JNum 2)]"
proof -
  have ev: "foldl merge_json (JObj [])
       (map JObj
          (List.map_filter
             (\<lambda>name. groupPreferences (Some ''file:///a/b/c.ts'')
                (groupNamed (sampleConfigurations [])
                   (getFolderProviders sampleOps nestedRegistry (Some ''file:///a/b/c.ts'')) name))
             (rev (remdups (rev (getConfigName (sampleConfigurations [])
                                   # getSectionNames (sampleConfigurations []))))))) =
     JObj [(''x'', JNum 1), (''y'', JNum 2)]"
    by code_simp
  have a: "provider_getPreferences (snd (nestedRegistry ! 3)) None = [(''x'', JNum 1)]"
    by code_simp
  have b: "provider_getPreferences (snd (nestedRegistry ! 2)) None = [(''y'', JNum 2)]"
    by code_simp
  have "getPreferences sampleOps (sampleConfigurations []) nestedRegistry (Some ''file:///a/b/c.ts'') =
     JObj [(''x'', JNum 1), (''y'', JNum 2)]"
    using getPreferences_merges_groups[of sampleOps "sampleConfigurations []" nestedRegistry
        "Some ''file:///a/b/c.ts''" "''x''" JNull JNull] ev
    by (simp only:)
  then show ?thesis using a b by (simp only:)
qed

section \<open>Properties of the write routing\<close>

lemma collectCandidates_eq:
  "collectCandidates cfg r configName ps configPath iterator =
     (if configPath = None then firstConfigPath cfg r ps else configPath,
      iterator @ map Tier1 (groupNamed cfg ps configName))"
  by (induction ps arbitrary: configPath iterator)
     (auto simp: firstConfigPath_def groupNamed_def Let_def split: option.splits)

lemma pushes_simps:
  "pushes cfg r cp [] = []"
  "pushes cfg r cp (t # q) = snd (runThunk cfg r cp t) @ pushes cfg r cp q"
  "pushes cfg r cp (q @ q') = pushes cfg r cp q @ pushes cfg r cp q'"
  by (simp_all add: pushes_def)

lemma pushes_thrice: "pushes cfg r cp (pushes cfg r cp (pushes cfg r cp q)) = []"
proof (induction q)
  case Nil
  then show ?case by (simp add: pushes_simps)
next
  case (Cons t q)
  have "pushes cfg r cp (pushes cfg r cp (snd (runThunk cfg r cp t))) = []"
    by (cases t) (simp_all add: pushes_simps)
  then show ?case using Cons by (simp add: pushes_simps)
qed

lemma schedule_Cons:
  "schedule cfg r cp (t # q) = t # schedule cfg r cp (q @ snd (runThunk cfg r cp t))"
proof -
  have "pushes cfg r cp (pushes cfg r cp (snd (runThunk cfg r cp t))) = []"
    using pushes_thrice[of cfg r cp "[t]"] by (simp add: pushes_simps)
  then show ?thesis by (simp add: schedule_def pushes_simps)
qed

lemma upToFirst_simps:
  "upToFirst P [] = []"
  "upToFirst P (x # xs) = (if P x then [x] else x # upToFirst P xs)"
  by (simp_all add: upToFirst_def)

lemma drain_ran:
  "ran (drain cfg n v r cp q) = upToFirst (hit cfg n v r cp) (schedule cfg r cp q)"
proof (induction cfg n v r cp q rule: drain.induct)
  case (1 cfg n v r cp)
  then show ?case by (simp add: schedule_def pushes_simps upToFirst_simps)
next
  case (2 cfg n v r cp t q)
  then show ?case
    by (simp add: schedule_Cons upToFirst_simps hit_def after_def split: option.splits sum.splits)
qed

lemma drain_written:
  "written (drain cfg n v r cp q) = selected cfg r cp (ran (drain cfg n v r cp q))"
proof (induction cfg n v r cp q rule: drain.induct)
  case (1 cfg n v r cp)
  then show ?case by (simp add: selected_def)
next
  case (2 cfg n v r cp t q)
  then show ?case
    by (simp add: selected_def after_def split: option.splits sum.splits)
qed

text \<open>The result of offering a write to providers in turn until one does not refuse it.\<close>

lemma drain_outcome:
  "outcome (drain cfg n v r cp q) =
     (case find (\<lambda>p. provider_setPreference p n v r \<noteq> Inr False)
             (selected cfg r cp (schedule cfg r cp q)) of
        None \<Rightarrow> Inr False
      | Some p \<Rightarrow> provider_setPreference p n v r)"
proof (induction cfg n v r cp q rule: drain.induct)
  case (1 cfg n v r cp)
  then show ?case by (simp add: schedule_def pushes_simps selected_def)
next
  case (2 cfg n v r cp t q)
  then show ?case
    by (auto simp: schedule_Cons selected_def after_def split: option.splits sum.splits)
qed

lemma selected_upToFirst:
  "selected cfg r cp (upToFirst (hit cfg n v r cp) ts) =
     upToFirst (\<lambda>p. provider_setPreference p n v r \<noteq> Inr False) (selected cfg r cp ts)"
  by (induction ts) (auto simp: selected_def upToFirst_simps hit_def split: option.splits)

lemma pushes_Tier1:
  "pushes cfg r cp (map Tier1 ps) = map Tier2 [p \<leftarrow> ps. provider_getConfigUri p r = None]"
  by (induction ps) (auto simp: pushes_simps)

lemma pushes_Tier2:
  "pushes cfg r cp (map Tier2 ps) =
     map Tier3 [p \<leftarrow> ps. Some (getPath cfg (provider_getConfigUri p None)) \<noteq> cp]"
  by (induction ps) (auto simp: pushes_simps)

lemma selected_append:
  "selected cfg r cp (q @ q') = selected cfg r cp q @ selected cfg r cp q'"
  by (simp add: selected_def List.map_filter_def)

lemma selected_Tier1:
  "selected cfg r cp (map Tier1 ps) = [p \<leftarrow> ps. provider_getConfigUri p r \<noteq> None]"
  by (induction ps) (auto simp: selected_def)

lemma selected_Tier2:
  "selected cfg r cp (map Tier2 ps) =
     [p \<leftarrow> ps. Some (getPath cfg (provider_getConfigUri p None)) = cp]"
  by (induction ps) (auto simp: selected_def)

lemma selected_Tier3: "selected cfg r cp (map Tier3 ps) = ps"
  by (induction ps) (auto simp: selected_def)

text \<open>The order in which the candidates are offered the write: the three tiers.\<close>

lemma selected_schedule:
  "selected cfg r cp (schedule cfg r cp (map Tier1 ps)) =
     [p \<leftarrow> ps. provider_getConfigUri p r \<noteq> None]
     @ [p \<leftarrow> ps. provider_getConfigUri p r = None
                   \<and> Some (getPath cfg (provider_getConfigUri p None)) = cp]
     @ [p \<leftarrow> ps. provider_getConfigUri p r = None
                   \<and> Some (getPath cfg (provider_getConfigUri p None)) \<noteq> cp]"
  by (simp add: schedule_def selected_append pushes_Tier1 pushes_Tier2 selected_Tier1
        selected_Tier2 selected_Tier3 conj_commute)

lemma setPreference_search_eq:
  "setPreference_search ops cfg reg n v r =
     drain cfg n v r (firstConfigPath cfg r (getFolderProviders ops reg r))
       (map Tier1 (groupNamed cfg (getFolderProviders ops reg r) (configNameOf cfg n)))"
  by (simp add: setPreference_search_def collectCandidates_eq configNameOf_def Let_def)

lemma written_order:
  "written (setPreference_search ops cfg reg n v r) =
     upToFirst (\<lambda>p. provider_setPreference p n v r \<noteq> Inr False)
       (selected cfg r (firstConfigPath cfg r (getFolderProviders ops reg r))
          (schedule cfg r (firstConfigPath cfg r (getFolderProviders ops reg r))
             (map Tier1 (groupNamed cfg (getFolderProviders ops reg r) (configNameOf cfg n)))))"
  by (simp only: setPreference_search_eq drain_written drain_ran selected_upToFirst)


text \<open>
  C4 (as amended). The candidates, the selected folder's providers of the resolved config
  name, are offered the write in three tiers: first those that have a config file for the
  resource; then those whose config path is \<^verbatim>\<open>configPath\<close>, the path of the first provider of
  the folder (of any config name, in selector order) that has a config URI for the resource;
  then all the others. Within a tier the order is the selector's. A candidate that refuses
  the write (its write resolves to false) is followed by the next one; the first whose write
  is not refused ends the search.
\<close>

theorem setPreference_three_tier_order:
  "(let ps = getFolderProviders ops reg r;
        cands = groupNamed cfg ps (configNameOf cfg n);
        configPath = firstConfigPath cfg r ps
    in written (setPreference_search ops cfg reg n v r) =
         upToFirst (\<lambda>p. provider_setPreference p n v r \<noteq> Inr False)
           ([p \<leftarrow> cands. provider_getConfigUri p r \<noteq> None]
            @ [p \<leftarrow> cands. provider_getConfigUri p r = None
                 \<and> Some (getPath cfg (provider_getConfigUri p None)) = configPath]
            @ [p \<leftarrow> cands. provider_getConfigUri p r = None
                 \<and> Some (getPath cfg (provider_getConfigUri p None)) \<noteq> configPath]))"
  unfolding Let_def written_order selected_schedule by (rule refl)

theorem setPreference_three_tier_order_witness:
  "map (\<lambda>p. provider_getConfigUri p None)
     (written (setPreference_search sampleOps threePathConfigurations threePathRegistry
                 ''foo.bar'' (JNum 1) (Some ''file:///w/x.ts''))) =
   [Some ''file:///w/.b/settings.json'', Some ''file:///w/.a/settings.json'']"
proof -
  let ?r = "Some ''file:///w/x.ts''"
  let ?ps = "getFolderProviders sampleOps threePathRegistry ?r"
  let ?cands = "groupNamed threePathConfigurations ?ps (configNameOf threePathConfigurations ''foo.bar'')"
  let ?cp = "firstConfigPath threePathConfigurations ?r ?ps"
  have ev: "map (\<lambda>p. provider_getConfigUri p None)
     (upToFirst (\<lambda>p. provider_setPreference p ''foo.bar'' (JNum 1) ?r \<noteq> Inr False)
           ([p \<leftarrow> ?cands. provider_getConfigUri p ?r \<noteq> None]
            @ [p \<leftarrow> ?cands. provider_getConfigUri p ?r = None
                 \<and> Some (getPath threePathConfigurations (provider_getConfigUri p None)) = ?cp]
            @ [p \<leftarrow> ?cands. provider_getConfigUri p ?r = None
                 \<and> Some (getPath threePathConfigurations (provider_getConfigUri p None)) \<noteq> ?cp])) =
   [Some ''file:///w/.b/settings.json'', Some ''file:///w/.a/settings.json'']"
    by code_simp
  show ?thesis
    using setPreference_three_tier_order[of sampleOps threePathRegistry ?r threePathConfigurations
        "''foo.bar''" "JNum 1"] ev
    by (simp only: Let_def)
qed

text \<open>With the second tier as the claim words it, the settings file under \<open>.c\<close> would be
  written after the one under \<open>.b\<close> refuses; the code writes the one under \<open>.a\<close>.\<close>

theorem setPreference_any_sibling_counterexample:
  "map (\<lambda>p. provider_getConfigUri p None)
     (written (setPreference_search sampleOps threePathConfigurations threePathRegistry
                 ''foo.bar'' (JNum 1) (Some ''file:///w/x.ts''))) =
   [Some ''file:///w/.b/settings.json'', Some ''file:///w/.a/settings.json'']
   \<and> map (\<lambda>p. provider_getConfigUri p None)
     (upToFirst (\<lambda>p. provider_setPreference p ''foo.bar'' (JNum 1) (Some ''file:///w/x.ts'')
                        \<noteq> Inr False)
        (claimedTiers threePathConfigurations (Some ''file:///w/x.ts'')
           (getFolderProviders sampleOps threePathRegistry (Some ''file:///w/x.ts''))
           (groupNamed threePathConfigurations
              (getFolderProviders sampleOps threePathRegistry (Some ''file:///w/x.ts''))
              (configNameOf threePathConfigurations ''foo.bar'')))) =
   [Some ''file:///w/.b/settings.json'', Some ''file:///w/.c/settings.json'']
   \<and> written (setPreference_search sampleOps threePathConfigurations threePathRegistry
                 ''foo.bar'' (JNum 1) (Some ''file:///w/x.ts''))
     \<noteq> upToFirst (\<lambda>p. provider_setPreference p ''foo.bar'' (JNum 1) (Some ''file:///w/x.ts'')
                        \<noteq> Inr False)
        (claimedTiers threePathConfigurations (Some ''file:///w/x.ts'')
           (getFolderProviders sampleOps threePathRegistry (Some ''file:///w/x.ts''))
           (groupNamed threePathConfigurations
              (getFolderProviders sampleOps threePathRegistry (Some ''file:///w/x.ts''))
              (configNameOf threePathConfigurations ''foo.bar'')))"
proof -
  have a: "map (\<lambda>p. provider_getConfigUri p None)
     (written (setPreference_search sampleOps threePathConfigurations threePathRegistry
                 ''foo.bar'' (JNum 1) (Some ''file:///w/x.ts''))) =
   [Some ''file:///w/.b/settings.json'', Some ''file:///w/.a/settings.json'']"
    by code_simp
  have b: "map (\<lambda>p. provider_getConfigUri p None)
     (upToFirst (\<lambda>p. provider_setPreference p ''foo.bar'' (JNum 1) (Some ''file:///w/x.ts'')
                        \<noteq> Inr False)
        (claimedTiers threePathConfigurations (Some ''file:///w/x.ts'')
           (getFolderProviders sampleOps threePathRegistry (Some ''file:///w/x.ts''))
           (groupNamed threePathConfigurations
              (getFolderProviders sampleOps threePathRegistry (Some ''file:///w/x.ts''))
              (configNameOf threePathConfigurations ''foo.bar'')))) =
   [Some ''file:///w/.b/settings.json'', Some ''file:///w/.c/settings.json'']"
    by code_simp
  have "[Some ''file:///w/.b/settings.json'', Some ''file:///w/.a/settings.json'']
          \<noteq> [Some ''file:///w/.b/settings.json'', Some ''file:///w/.c/settings.json'']"
    by simp
  then show ?thesis using a b by metis
qed

lemma upToFirst_prefix: "\<exists>zs. xs = upToFirst P xs @ zs"
  by (simp add: upToFirst_def) (metis append_take_drop_id takeWhile_dropWhile_id)

lemma upToFirst_none: "\<forall>x \<in> set xs. \<not> P x \<Longrightarrow> upToFirst P xs = xs"
  by (induction xs) (auto simp: upToFirst_simps)

lemma upToFirst_some:
  "\<exists>x \<in> set xs. P x \<Longrightarrow>
     upToFirst P xs \<noteq> [] \<and> P (last (upToFirst P xs))
     \<and> (\<forall>x \<in> set (butlast (upToFirst P xs)). \<not> P x)"
  by (induction xs) (auto simp: upToFirst_simps)

lemma tiers_mset:
  "mset ([p \<leftarrow> ps. A p] @ [p \<leftarrow> ps. \<not> A p \<and> B p] @ [p \<leftarrow> ps. \<not> A p \<and> \<not> B p]) = mset ps"
  by (induction ps) auto

lemma tiers_set:
  "set ([p \<leftarrow> ps. A p] @ [p \<leftarrow> ps. \<not> A p \<and> B p] @ [p \<leftarrow> ps. \<not> A p \<and> \<not> B p]) = set ps"
  by auto

lemma selected_schedule_mset:
  "mset (selected cfg r cp (schedule cfg r cp (map Tier1 ps))) = mset ps"
  unfolding selected_schedule
  using tiers_mset[of "\<lambda>p. provider_getConfigUri p r \<noteq> None" ps
      "\<lambda>p. Some (getPath cfg (provider_getConfigUri p None)) = cp"]
  by simp

lemma find_upToFirst:
  "find P xs = Some x \<Longrightarrow>
     upToFirst P xs \<noteq> [] \<and> last (upToFirst P xs) = x
     \<and> (\<forall>y \<in> set (butlast (upToFirst P xs)). \<not> P y)"
  by (induction xs) (auto simp: upToFirst_simps split: if_splits)

text \<open>
  C8 (as amended). \<^verbatim>\<open>setPreference\<close> raises when \<^verbatim>\<open>getFolderProviders\<close> throws, that is for a
  resource string that \<^verbatim>\<open>new URI\<close> rejects. Otherwise the candidates are offered the write in
  the order of the three tiers, and the call settles with the first write that is not
  refused: it returns true if that write succeeds (every write before it was refused and
  none follows), and raises if that write rejects. It returns false, without raising, when
  every candidate refuses, each having been offered the write, and when the selector returns
  no provider for the resource; with no resource URI it returns false and nothing is
  written.
\<close>

theorem setPreference_result:
  "(let ps = getFolderProviders ops reg r;
        cands = groupNamed cfg ps (configNameOf cfg n);
        configPath = firstConfigPath cfg r ps;
        s = setPreference_search ops cfg reg n v r
    in setPreference ops cfg reg n v r =
         (if getFolderProviders_throws ops r then Inl UriError
          else case find (\<lambda>p. provider_setPreference p n v r \<noteq> Inr False)
                      ([p \<leftarrow> cands. provider_getConfigUri p r \<noteq> None]
                       @ [p \<leftarrow> cands. provider_getConfigUri p r = None
                            \<and> Some (getPath cfg (provider_getConfigUri p None)) = configPath]
                       @ [p \<leftarrow> cands. provider_getConfigUri p r = None
                            \<and> Some (getPath cfg (provider_getConfigUri p None)) \<noteq> configPath]) of
                 None \<Rightarrow> Inr False
               | Some p \<Rightarrow> provider_setPreference p n v r)
     \<and> (setPreference ops cfg reg n v r = Inr True \<longrightarrow>
          written s \<noteq> []
        \<and> provider_setPreference (last (written s)) n v r = Inr True
        \<and> (\<forall>p \<in> set (butlast (written s)). provider_setPreference p n v r = Inr False))
     \<and> (\<not> getFolderProviders_throws ops r
          \<and> (\<forall>p \<in> set cands. provider_setPreference p n v r = Inr False) \<longrightarrow>
          setPreference ops cfg reg n v r = Inr False \<and> mset (written s) = mset cands)
     \<and> (\<not> getFolderProviders_throws ops r \<and> ps = [] \<longrightarrow>
          setPreference ops cfg reg n v r = Inr False \<and> written s = [])
     \<and> setPreference ops cfg reg n v None = Inr False
     \<and> written (setPreference_search ops cfg reg n v None) = [])"
proof -
  let ?ps = "getFolderProviders ops reg r"
  let ?cands = "groupNamed cfg ?ps (configNameOf cfg n)"
  let ?cp = "firstConfigPath cfg r ?ps"
  let ?order = "selected cfg r ?cp (schedule cfg r ?cp (map Tier1 ?cands))"
  let ?s = "setPreference_search ops cfg reg n v r"
  let ?P = "\<lambda>p. provider_setPreference p n v r \<noteq> Inr False"
  let ?first = "case find ?P ?order of None \<Rightarrow> Inr False | Some p \<Rightarrow> provider_setPreference p n v r"
  have set_order: "set ?order = set ?cands"
    by (metis selected_schedule_mset set_mset_mset)
  have out: "outcome ?s = ?first"
    by (simp only: setPreference_search_eq drain_outcome)
  have res: "setPreference ops cfg reg n v r =
               (if getFolderProviders_throws ops r then Inl UriError else ?first)"
    by (simp only: setPreference_def out)
  have wr: "written ?s = upToFirst ?P ?order"
    by (rule written_order)
  have yes: "written ?s \<noteq> []
      \<and> provider_setPreference (last (written ?s)) n v r = Inr True
      \<and> (\<forall>p \<in> set (butlast (written ?s)). provider_setPreference p n v r = Inr False)"
    if "setPreference ops cfg reg n v r = Inr True"
  proof -
    have first: "?first = Inr True"
      using that res by (simp split: if_splits)
    then obtain p where p: "find ?P ?order = Some p" "provider_setPreference p n v r = Inr True"
      by (cases "find ?P ?order") auto
    have "upToFirst ?P ?order \<noteq> [] \<and> last (upToFirst ?P ?order) = p
        \<and> (\<forall>y \<in> set (butlast (upToFirst ?P ?order)). \<not> ?P y)"
      using p(1) by (rule find_upToFirst)
    then show ?thesis using p(2) by (simp add: wr)
  qed
  have no: "setPreference ops cfg reg n v r = Inr False \<and> mset (written ?s) = mset ?cands"
    if "\<not> getFolderProviders_throws ops r"
      "\<forall>p \<in> set ?cands. provider_setPreference p n v r = Inr False"
  proof -
    have all: "\<forall>p \<in> set ?order. \<not> ?P p"
      using that(2) set_order by simp
    then have "find ?P ?order = None"
      by (simp add: find_None_iff)
    then have "setPreference ops cfg reg n v r = Inr False"
      using that(1) by (simp add: res)
    moreover have "upToFirst ?P ?order = ?order"
      using all by (rule upToFirst_none)
    then have "mset (written ?s) = mset ?cands"
      by (simp only: wr selected_schedule_mset)
    ultimately show ?thesis by simp
  qed
  have empty: "setPreference ops cfg reg n v r = Inr False \<and> written ?s = []"
    if "\<not> getFolderProviders_throws ops r" "?ps = []"
  proof -
    have "?cands = []" using that(2) by (simp add: groupNamed_def)
    then have "?order = []"
      by (simp add: schedule_def pushes_simps selected_def)
    then show ?thesis using that(1) by (simp add: res wr upToFirst_simps)
  qed
  have "getFolderProviders ops reg None = []"
    by (simp add: getFolderProviders_def)
  then have none: "setPreference ops cfg reg n v None = Inr False"
    "written (setPreference_search ops cfg reg n v None) = []"
    by (simp_all add: setPreference_def getFolderProviders_throws_def setPreference_search_eq
          groupNamed_def)
  show ?thesis
    unfolding Let_def selected_schedule[symmetric]
    using res yes no empty none by blast
qed

theorem setPreference_result_witness:
  "setPreference sampleOps threePathConfigurations threePathRegistry ''foo.bar'' (JNum 1)
     (Some ''file:///w/x.ts'') = Inr True
   \<and> map (\<lambda>p. provider_getConfigUri p None)
       (written (setPreference_search sampleOps threePathConfigurations threePathRegistry
                   ''foo.bar'' (JNum 1) (Some ''file:///w/x.ts''))) =
     [Some ''file:///w/.b/settings.json'', Some ''file:///w/.a/settings.json'']
   \<and> provider_setPreference
       (last (written (setPreference_search sampleOps threePathConfigurations threePathRegistry
                         ''foo.bar'' (JNum 1) (Some ''file:///w/x.ts''))))
       ''foo.bar'' (JNum 1) (Some ''file:///w/x.ts'') = Inr True
   \<and> setPreference sampleOps threePathConfigurations threePathRegistry ''foo.bar'' (JNum 1)
       (Some ''file:///elsewhere/x.ts'') = Inr False
   \<and> setPreference sampleOps threePathConfigurations rejectingRegistry ''foo.bar'' (JNum 1)
       (Some ''file:///a/x.ts'') = Inl (ProviderError ''EACCES'')"
proof -
  let ?r = "Some ''file:///w/x.ts''"
  let ?ps = "getFolderProviders sampleOps threePathRegistry ?r"
  let ?cands = "groupNamed threePathConfigurations ?ps (configNameOf threePathConfigurations ''foo.bar'')"
  let ?cp = "firstConfigPath threePathConfigurations ?r ?ps"
  have ev: "(if getFolderProviders_throws sampleOps ?r then Inl UriError
          else case find (\<lambda>p. provider_setPreference p ''foo.bar'' (JNum 1) ?r \<noteq> Inr False)
                      ([p \<leftarrow> ?cands. provider_getConfigUri p ?r \<noteq> None]
                       @ [p \<leftarrow> ?cands. provider_getConfigUri p ?r = None
                            \<and> Some (getPath threePathConfigurations (provider_getConfigUri p None)) = ?cp]
                       @ [p \<leftarrow> ?cands. provider_getConfigUri p ?r = None
                            \<and> Some (getPath threePathConfigurations (provider_getConfigUri p None)) \<noteq> ?cp]) of
                 None \<Rightarrow> Inr False
               | Some p \<Rightarrow> provider_setPreference p ''foo.bar'' (JNum 1) ?r) = Inr True"
    by code_simp
  have yes: "setPreference sampleOps threePathConfigurations threePathRegistry ''foo.bar'' (JNum 1) ?r
               = Inr True"
    using setPreference_result[of sampleOps threePathRegistry ?r threePathConfigurations
        "''foo.bar''" "JNum 1"] ev
    unfolding Let_def by (simp only:)
  have last: "provider_setPreference
       (last (written (setPreference_search sampleOps threePathConfigurations threePathRegistry
                         ''foo.bar'' (JNum 1) ?r)))
       ''foo.bar'' (JNum 1) ?r = Inr True"
    using setPreference_result[of sampleOps threePathRegistry ?r threePathConfigurations
        "''foo.bar''" "JNum 1"] yes
    unfolding Let_def by blast
  have valid: "\<not> getFolderProviders_throws sampleOps (Some ''file:///elsewhere/x.ts'')"
    by code_simp
  have nowhere: "getFolderProviders sampleOps threePathRegistry (Some ''file:///elsewhere/x.ts'') = []"
    by code_simp
  have no: "setPreference sampleOps threePathConfigurations threePathRegistry ''foo.bar'' (JNum 1)
         (Some ''file:///elsewhere/x.ts'') = Inr False"
    using setPreference_result[of sampleOps threePathRegistry "Some ''file:///elsewhere/x.ts''"
        threePathConfigurations "''foo.bar''" "JNum 1"] valid nowhere
    unfolding Let_def by blast
  have wr: "map (\<lambda>p. provider_getConfigUri p None)
       (written (setPreference_search sampleOps threePathConfigurations threePathRegistry
                   ''foo.bar'' (JNum 1) ?r)) =
     [Some ''file:///w/.b/settings.json'', Some ''file:///w/.a/settings.json'']"
    by code_simp
  have rejected: "setPreference sampleOps threePathConfigurations rejectingRegistry ''foo.bar''
       (JNum 1) (Some ''file:///a/x.ts'') = Inl (ProviderError ''EACCES'')"
    by code_simp
  show ?thesis using yes last no wr rejected by blast
qed

text \<open>For a resource string that \<^verbatim>\<open>new URI\<close> rejects the call raises, although there is no
  folder provider for the resource: here the registry is empty.\<close>

theorem setPreference_malformed_uri_counterexample:
  "length (getFolderProviders sampleOps [] (Some ''a b:c'')) = 0
   \<and> setPreference sampleOps threePathConfigurations [] ''foo.bar'' (JNum 1) (Some ''a b:c'') =
       Inl UriError
   \<and> setPreference sampleOps threePathConfigurations [] ''foo.bar'' (JNum 1) (Some ''a b:c'') \<noteq>
       Inr False"
  by code_simp


lemma schedule_Tier1:
  "schedule cfg r cp (map Tier1 ps) =
     map Tier1 ps
     @ map Tier2 [p \<leftarrow> ps. provider_getConfigUri p r = None]
     @ map Tier3 [p \<leftarrow> ps. provider_getConfigUri p r = None
                           \<and> Some (getPath cfg (provider_getConfigUri p None)) \<noteq> cp]"
  by (simp add: schedule_def pushes_Tier1 pushes_Tier2 conj_commute)

lemma tier_of_schedule:
  "mset (map thunkProvider [t \<leftarrow> schedule cfg r cp (map Tier1 ps). thunkTier t = k]) \<subseteq># mset ps"
proof -
  have one: "map thunkProvider [t \<leftarrow> map Tier1 xs. thunkTier t = k] = (if k = 1 then xs else [])"
    for xs by (induction xs) auto
  have two: "map thunkProvider [t \<leftarrow> map Tier2 xs. thunkTier t = k] = (if k = 2 then xs else [])"
    for xs by (induction xs) auto
  have three: "map thunkProvider [t \<leftarrow> map Tier3 xs. thunkTier t = k] = (if k = 3 then xs else [])"
    for xs by (induction xs) auto
  show ?thesis
    unfolding schedule_Tier1 filter_append map_append one two three
    by simp
qed

lemma mem_schedule:
  "t \<in> set (schedule cfg r cp (map Tier1 ps)) \<longleftrightarrow>
     (case t of
        Tier1 p \<Rightarrow> p \<in> set ps
      | Tier2 p \<Rightarrow> p \<in> set ps \<and> provider_getConfigUri p r = None
      | Tier3 p \<Rightarrow> p \<in> set ps \<and> provider_getConfigUri p r = None
                   \<and> Some (getPath cfg (provider_getConfigUri p None)) \<noteq> cp)"
  by (cases t) (auto simp: schedule_Tier1)

lemma no_later_tier:
  assumes "t \<in> set (schedule cfg r cp (map Tier1 ps))"
    and "t' \<in> set (schedule cfg r cp (map Tier1 ps))"
    and "fst (runThunk cfg r cp t) \<noteq> None"
    and "thunkProvider t' = thunkProvider t"
  shows "thunkTier t' \<le> thunkTier t"
  using assms unfolding mem_schedule
  by (cases t; cases t') (auto split: if_splits)

text \<open>
  C10. The candidate search terminates: \<open>drain\<close>, the loop over the queue, is a total function
  (its queue loses weight at every turn), and it runs at most three closures for each
  candidate. No candidate is written to more often than it occurs among the candidates (the
  candidates are distinct objects, so each is written to at most once), each candidate has at
  most one closure run in each tier, and once a closure has returned its provider no closure of
  a later tier is run for that provider.
\<close>

theorem setPreference_search_bounded:
  "(let ps = getFolderProviders ops reg r;
        cands = groupNamed cfg ps (configNameOf cfg n);
        configPath = firstConfigPath cfg r ps;
        s = setPreference_search ops cfg reg n v r
    in mset (written s) \<subseteq># mset cands
     \<and> (distinct cands \<longrightarrow> distinct (written s))
     \<and> length (ran s) \<le> 3 * length cands
     \<and> (\<forall>k. mset (map thunkProvider [t \<leftarrow> ran s. thunkTier t = k]) \<subseteq># mset cands)
     \<and> (\<forall>t \<in> set (ran s). \<forall>t' \<in> set (ran s).
           fst (runThunk cfg r configPath t) \<noteq> None \<and> thunkProvider t' = thunkProvider t
             \<longrightarrow> thunkTier t' \<le> thunkTier t))"
proof -
  let ?ps = "getFolderProviders ops reg r"
  let ?cands = "groupNamed cfg ?ps (configNameOf cfg n)"
  let ?cp = "firstConfigPath cfg r ?ps"
  let ?s = "setPreference_search ops cfg reg n v r"
  let ?sched = "schedule cfg r ?cp (map Tier1 ?cands)"
  have ran_eq: "ran ?s = upToFirst (hit cfg n v r ?cp) ?sched"
    by (simp only: setPreference_search_eq drain_ran)
  obtain zs where zs: "?sched = ran ?s @ zs"
    using upToFirst_prefix[of ?sched "hit cfg n v r ?cp"] by (auto simp only: ran_eq)
  obtain ws where ws: "selected cfg r ?cp ?sched = written ?s @ ws"
    using upToFirst_prefix[of "selected cfg r ?cp ?sched"
        "\<lambda>p. provider_setPreference p n v r \<noteq> Inr False"]
    by (auto simp only: written_order)
  have "mset (written ?s) \<subseteq># mset (selected cfg r ?cp ?sched)"
    by (simp only: ws mset_append mset_subset_eq_add_left)
  then have a: "mset (written ?s) \<subseteq># mset ?cands"
    by (simp only: selected_schedule_mset)
  have "length ?sched =
          length ?cands
          + length [p \<leftarrow> ?cands. provider_getConfigUri p r = None]
          + length [p \<leftarrow> ?cands. provider_getConfigUri p r = None
                                  \<and> Some (getPath cfg (provider_getConfigUri p None)) \<noteq> ?cp]"
    by (simp add: schedule_Tier1)
  moreover have "length [p \<leftarrow> ?cands. provider_getConfigUri p r = None] \<le> length ?cands"
    by (rule length_filter_le)
  moreover have "length [p \<leftarrow> ?cands. provider_getConfigUri p r = None
                                  \<and> Some (getPath cfg (provider_getConfigUri p None)) \<noteq> ?cp]
                   \<le> length ?cands"
    by (rule length_filter_le)
  ultimately have "length ?sched \<le> 3 * length ?cands"
    by linarith
  moreover have "length (ran ?s) \<le> length ?sched"
    using arg_cong[OF zs, of length] by simp
  ultimately have b: "length (ran ?s) \<le> 3 * length ?cands"
    by linarith
  have c: "mset (map thunkProvider [t \<leftarrow> ran ?s. thunkTier t = k]) \<subseteq># mset ?cands" for k
  proof -
    have "mset (map thunkProvider [t \<leftarrow> ran ?s. thunkTier t = k])
            \<subseteq># mset (map thunkProvider [t \<leftarrow> ?sched. thunkTier t = k])"
      by (simp only: zs filter_append map_append mset_append mset_subset_eq_add_left)
    then show ?thesis
      by (rule subset_mset.order_trans[OF _ tier_of_schedule])
  qed
  have d: "thunkTier t' \<le> thunkTier t"
    if "t \<in> set (ran ?s)" "t' \<in> set (ran ?s)" "fst (runThunk cfg r ?cp t) \<noteq> None"
      "thunkProvider t' = thunkProvider t" for t t'
  proof -
    have "t \<in> set ?sched" "t' \<in> set ?sched"
      using that(1,2) zs by (metis Un_iff set_append)+
    then show ?thesis using that(3,4) by (rule no_later_tier)
  qed
  have e: "distinct (written ?s)" if "distinct ?cands"
  proof -
    have "mset (selected cfg r ?cp ?sched) = mset ?cands"
      by (rule selected_schedule_mset)
    then have "distinct (selected cfg r ?cp ?sched)"
      using that mset_eq_imp_distinct_iff by blast
    then show ?thesis unfolding ws by simp
  qed
  show ?thesis unfolding Let_def using a b c d e by blast
qed

theorem setPreference_search_bounded_witness:
  "map (\<lambda>p. provider_getConfigUri p None)
     (written (setPreference_search sampleOps threePathConfigurations threePathRegistry
                 ''foo.bar'' (JNum 1) (Some ''file:///w/x.ts''))) =
   [Some ''file:///w/.b/settings.json'', Some ''file:///w/.a/settings.json'']
   \<and> length (ran (setPreference_search sampleOps threePathConfigurations threePathRegistry
                 ''foo.bar'' (JNum 1) (Some ''file:///w/x.ts''))) \<le> 9
   \<and> map thunkTier
       (ran (setPreference_search sampleOps threePathConfigurations threePathRegistry
               ''foo.bar'' (JNum 1) (Some ''file:///w/x.ts''))) = [1, 1, 1, 2, 2, 2, 3]"
proof -
  let ?r = "Some ''file:///w/x.ts''"
  let ?s = "setPreference_search sampleOps threePathConfigurations threePathRegistry
              ''foo.bar'' (JNum 1) ?r"
  have n: "length (groupNamed threePathConfigurations
                     (getFolderProviders sampleOps threePathRegistry ?r)
                     (configNameOf threePathConfigurations ''foo.bar'')) = 3"
    by code_simp
  have "length (ran ?s) \<le> 3 * length (groupNamed threePathConfigurations
                     (getFolderProviders sampleOps threePathRegistry ?r)
                     (configNameOf threePathConfigurations ''foo.bar''))"
    using setPreference_search_bounded[of sampleOps threePathRegistry ?r threePathConfigurations
        "''foo.bar''" "JNum 1"]
    unfolding Let_def by blast
  then have len: "length (ran ?s) \<le> 9" by (simp only: n)
  have wr: "map (\<lambda>p. provider_getConfigUri p None) (written ?s) =
     [Some ''file:///w/.b/settings.json'', Some ''file:///w/.a/settings.json'']"
    by code_simp
  have tiers: "map thunkTier (ran ?s) = [1, 1, 1, 2, 2, 2, 3]"
    by code_simp
  show ?thesis using len wr tiers by blast
qed

section \<open>Properties of the provider registry\<close>

lemma has_key: "map_of al k = None \<longleftrightarrow> k \<notin> set (map fst al)"
  by (simp add: map_of_eq_None_iff)

lemma disposedKeys_append: "disposedKeys (xs @ ys) = disposedKeys xs @ disposedKeys ys"
  by (induction xs rule: disposedKeys.induct) auto

lemma removeAll_filter: "[k \<leftarrow> removeAll key td. P k] = [k \<leftarrow> td. k \<noteq> key \<and> P k]"
  by (induction td) auto

lemma visit_absent:
  "map_of (providers st) (keyOf cfg t) = None \<Longrightarrow>
     visitDesired cfg factory (t # ts) st td log =
       visitDesired cfg factory ts
         (st\<lparr> providers := AList.update (keyOf cfg t) (factory (fst t) (keyOf cfg t)) (providers st),
              toDispose := toDispose st @ [OfProvider (keyOf cfg t), OfSubscription (keyOf cfg t)] \<rparr>)
         (removeAll (keyOf cfg t) td) (log @ [Created (keyOf cfg t)])"
  by (cases t) (simp add: keyOf_def Let_def)

lemma visit_present_step:
  "map_of (providers st) (keyOf cfg t) \<noteq> None \<Longrightarrow>
     visitDesired cfg factory (t # ts) st td log =
       visitDesired cfg factory ts st (removeAll (keyOf cfg t) td) log"
  by (cases t) (auto simp: keyOf_def Let_def)

lemma visit_toDelete:
  "fst (snd (visitDesired cfg factory ts st td log)) = [k \<leftarrow> td. k \<notin> set (map (keyOf cfg) ts)]"
proof (induction ts arbitrary: st td log)
  case Nil
  then show ?case by simp
next
  case (Cons t ts)
  show ?case
    by (cases "map_of (providers st) (keyOf cfg t) = None")
       (simp_all add: visit_absent visit_present_step Cons.IH removeAll_filter)
qed

lemma visit_keys:
  "fst ` set (providers (fst (visitDesired cfg factory ts st td log))) =
     fst ` set (providers st) \<union> keyOf cfg ` set ts"
proof (induction ts arbitrary: st td log)
  case Nil
  then show ?case by simp
next
  case (Cons t ts)
  show ?case
  proof (cases "map_of (providers st) (keyOf cfg t) = None")
    case True
    then show ?thesis
      by (simp add: visit_absent Cons.IH dom_update del: visitDesired.simps)
  next
    case False
    then have "keyOf cfg t \<in> fst ` set (providers st)"
      using has_key[of "providers st" "keyOf cfg t"] by simp
    then show ?thesis
      using False by (simp add: visit_present_step Cons.IH del: visitDesired.simps) blast
  qed
qed

lemma visit_distinct:
  "distinct (map fst (providers st)) \<Longrightarrow>
     distinct (map fst (providers (fst (visitDesired cfg factory ts st td log))))"
proof (induction ts arbitrary: st td log)
  case Nil
  then show ?case by simp
next
  case (Cons t ts)
  show ?case
  proof (cases "map_of (providers st) (keyOf cfg t) = None")
    case True
    have "distinct (map fst (AList.update (keyOf cfg t) (factory (fst t) (keyOf cfg t)) (providers st)))"
      using Cons.prems by (rule distinct_update)
    then show ?thesis
      using True by (simp add: visit_absent Cons.IH del: visitDesired.simps)
  next
    case False
    then show ?thesis
      using Cons by (simp add: visit_present_step del: visitDesired.simps)
  qed
qed

lemma visit_disposed:
  "disposedKeys (snd (snd (visitDesired cfg factory ts st td log))) = disposedKeys log"
proof (induction ts arbitrary: st td log)
  case Nil
  then show ?case by simp
next
  case (Cons t ts)
  show ?case
    by (cases "map_of (providers st) (keyOf cfg t) = None")
       (simp_all add: visit_absent visit_present_step Cons.IH disposedKeys_append
          del: visitDesired.simps)
qed

lemma visit_present:
  "set (map (keyOf cfg) ts) \<subseteq> set (map fst (providers st)) \<Longrightarrow>
     visitDesired cfg factory ts st td log = (st, [k \<leftarrow> td. k \<notin> set (map (keyOf cfg) ts)], log)"
proof (induction ts arbitrary: td)
  case Nil
  then show ?case by simp
next
  case (Cons t ts)
  have "map_of (providers st) (keyOf cfg t) \<noteq> None"
    using Cons.prems has_key[of "providers st" "keyOf cfg t"] by simp
  moreover have "set (map (keyOf cfg) ts) \<subseteq> set (map fst (providers st))"
    using Cons.prems by simp
  ultimately show ?case
    by (simp add: visit_present_step Cons.IH removeAll_filter del: visitDesired.simps)
qed

lemma dispose_keys:
  "map fst (providers (fst (disposeStale ks st log))) =
     [k \<leftarrow> map fst (providers st). k \<notin> set ks]"
proof (induction ks arbitrary: st log)
  case Nil
  then show ?case by simp
next
  case (Cons key ks)
  show ?case
  proof (cases "map_of (providers st) key")
    case None
    then have "key \<notin> set (map fst (providers st))" by (simp add: has_key)
    then have "[k \<leftarrow> map fst (providers st). k \<notin> set ks] =
               [k \<leftarrow> map fst (providers st). k \<notin> set (key # ks)]"
      by (intro filter_cong) auto
    then show ?thesis using None Cons.IH by simp
  next
    case (Some p)
    then show ?thesis
      by (simp add: Cons.IH delete_keys removeAll_filter)
  qed
qed

lemma dispose_log:
  "distinct ks \<Longrightarrow>
     snd (disposeStale ks st log) =
       log @ map Disposed [k \<leftarrow> ks. k \<in> set (map fst (providers st))]"
proof (induction ks arbitrary: st log)
  case Nil
  then show ?case by simp
next
  case (Cons key ks)
  show ?case
  proof (cases "map_of (providers st) key")
    case None
    then have "key \<notin> set (map fst (providers st))" by (simp add: has_key)
    then show ?thesis using None Cons by simp
  next
    case (Some p)
    then have present: "key \<in> set (map fst (providers st))"
      using has_key[of "providers st" key] by simp
    have "[k \<leftarrow> ks. k \<in> set (map fst (AList.delete key (providers st)))] =
          [k \<leftarrow> ks. k \<in> set (map fst (providers st))]"
      using Cons.prems by (intro filter_cong) (auto simp: delete_keys)
    then show ?thesis using Some present Cons by simp
  qed
qed

lemma disposedKeys_Disposed: "disposedKeys (map Disposed ks) = ks"
  by (induction ks) auto

lemma updateProviders_unfold:
  "updateProviders cfg factory roots st =
     disposeStale
       (fst (snd (visitDesired cfg factory (desiredTriples cfg roots) st (map fst (providers st)) [])))
       (fst (visitDesired cfg factory (desiredTriples cfg roots) st (map fst (providers st)) []))
       (snd (snd (visitDesired cfg factory (desiredTriples cfg roots) st (map fst (providers st)) [])))"
  by (simp add: updateProviders_def Let_def split: prod.splits)

lemma updateProviders_keys:
  "map fst (providers (fst (updateProviders cfg factory roots st))) =
     [k \<leftarrow> map fst (providers (fst (visitDesired cfg factory (desiredTriples cfg roots) st
                                      (map fst (providers st)) []))).
        k \<notin> set (map fst (providers st)) \<or> k \<in> set (desiredKeys cfg roots)]"
proof -
  have "k \<notin> set [k \<leftarrow> map fst (providers st). k \<notin> set (map (keyOf cfg) (desiredTriples cfg roots))]
          \<longleftrightarrow> k \<notin> set (map fst (providers st)) \<or> k \<in> set (desiredKeys cfg roots)" for k
    unfolding desiredKeys_def by simp
  then show ?thesis
    unfolding updateProviders_unfold dispose_keys visit_toDelete by simp
qed

lemma updateProviders_key_set:
  "set (map fst (providers (fst (updateProviders cfg factory roots st)))) =
     set (desiredKeys cfg roots)"
proof -
  have "set (map fst (providers (fst (visitDesired cfg factory (desiredTriples cfg roots) st
                                        (map fst (providers st)) [])))) =
          set (map fst (providers st)) \<union> set (desiredKeys cfg roots)"
    unfolding desiredKeys_def by (simp add: visit_keys)
  then show ?thesis
    unfolding updateProviders_keys set_filter by blast
qed

lemma updateProviders_disposed:
  assumes "distinct (map fst (providers st))"
  shows "disposedKeys (snd (updateProviders cfg factory roots st)) =
           [k \<leftarrow> map fst (providers st). k \<notin> set (desiredKeys cfg roots)]"
proof -
  let ?V = "visitDesired cfg factory (desiredTriples cfg roots) st (map fst (providers st)) []"
  let ?stale = "[k \<leftarrow> map fst (providers st). k \<notin> set (desiredKeys cfg roots)]"
  have td: "fst (snd ?V) = ?stale"
    by (simp add: visit_toDelete desiredKeys_def)
  have "distinct ?stale" using assms by simp
  then have "snd (disposeStale ?stale (fst ?V) (snd (snd ?V))) =
               snd (snd ?V) @ map Disposed [k \<leftarrow> ?stale. k \<in> set (map fst (providers (fst ?V)))]"
    by (rule dispose_log)
  moreover have "set (map fst (providers (fst ?V))) =
                   set (map fst (providers st)) \<union> set (map (keyOf cfg) (desiredTriples cfg roots))"
    by (simp add: visit_keys)
  then have "[k \<leftarrow> ?stale. k \<in> set (map fst (providers (fst ?V)))] = ?stale"
    unfolding filter_id_conv by auto
  ultimately have "snd (updateProviders cfg factory roots st) = snd (snd ?V) @ map Disposed ?stale"
    by (simp only: updateProviders_unfold td)
  then show ?thesis
    by (simp add: disposedKeys_append disposedKeys_Disposed visit_disposed)
qed


lemma count_disposed: "count_list log (Disposed k) = count_list (disposedKeys log) k"
  by (induction log rule: disposedKeys.induct) auto

lemma count_distinct: "distinct xs \<Longrightarrow> count_list xs k = (if k \<in> set xs then 1 else 0)"
  by (induction xs) auto

lemma desiredKeys_set:
  "set (desiredKeys cfg roots) =
     {createUri cfg (uri folder) configPath configName | folder configPath configName.
        folder \<in> set roots \<and> configPath \<in> set (getPaths cfg)
        \<and> configName \<in> set (getSectionNames cfg) \<union> {getConfigName cfg}}"
  unfolding desiredKeys_def desiredTriples_def keyOf_def by (auto simp: image_iff) blast+

text \<open>
  C5. \<^verbatim>\<open>updateProviders\<close> is idempotent: run again on the state it has produced, with the same
  roots, config paths and names, it creates no provider, disposes none and leaves the state
  as it is.
\<close>

theorem updateProviders_idempotent:
  "updateProviders cfg factory roots (fst (updateProviders cfg factory roots st)) =
     (fst (updateProviders cfg factory roots st), [])"
proof -
  let ?st = "fst (updateProviders cfg factory roots st)"
  have keys: "set (map fst (providers ?st)) = set (map (keyOf cfg) (desiredTriples cfg roots))"
    using updateProviders_key_set[of cfg factory roots st] by (simp only: desiredKeys_def)
  then have "set (map (keyOf cfg) (desiredTriples cfg roots)) \<subseteq> set (map fst (providers ?st))"
    by simp
  then have "visitDesired cfg factory (desiredTriples cfg roots) ?st (map fst (providers ?st)) [] =
          (?st, [k \<leftarrow> map fst (providers ?st). k \<notin> set (map (keyOf cfg) (desiredTriples cfg roots))], [])"
    by (rule visit_present)
  moreover have "[k \<leftarrow> map fst (providers ?st).
                    k \<notin> set (map (keyOf cfg) (desiredTriples cfg roots))] = []"
    unfolding filter_empty_conv using keys by blast
  ultimately have "visitDesired cfg factory (desiredTriples cfg roots) ?st (map fst (providers ?st)) [] =
          (?st, [], [])"
    by simp
  then show ?thesis
    by (simp add: updateProviders_unfold)
qed

theorem updateProviders_idempotent_witness:
  "updateProviders onePathConfigurations plainFactory
     [\<lparr> uri = ''file:///a'' \<rparr>, \<lparr> uri = ''file:///b'' \<rparr>] stateAB = (stateAB, [])
   \<and> snd (updateProviders onePathConfigurations plainFactory
            [\<lparr> uri = ''file:///a'' \<rparr>, \<lparr> uri = ''file:///b'' \<rparr>] emptyState) =
     [Created ''file:///a/.kt/launch.json'', Created ''file:///a/.kt/tasks.json'',
      Created ''file:///a/.kt/settings.json'', Created ''file:///b/.kt/launch.json'',
      Created ''file:///b/.kt/tasks.json'', Created ''file:///b/.kt/settings.json'']"
proof -
  have again: "updateProviders onePathConfigurations plainFactory
     [\<lparr> uri = ''file:///a'' \<rparr>, \<lparr> uri = ''file:///b'' \<rparr>] stateAB = (stateAB, [])"
    unfolding stateAB_def by (rule updateProviders_idempotent)
  have first: "snd (updateProviders onePathConfigurations plainFactory
            [\<lparr> uri = ''file:///a'' \<rparr>, \<lparr> uri = ''file:///b'' \<rparr>] emptyState) =
     [Created ''file:///a/.kt/launch.json'', Created ''file:///a/.kt/tasks.json'',
      Created ''file:///a/.kt/settings.json'', Created ''file:///b/.kt/launch.json'',
      Created ''file:///b/.kt/tasks.json'', Created ''file:///b/.kt/settings.json'']"
    by code_simp
  show ?thesis using again first by (rule conjI)
qed

text \<open>
  C6. After a run of \<^verbatim>\<open>updateProviders\<close> on a registry (a map: its keys are distinct), the
  keys of the registry are distinct, so there is one provider for a key; they are the keys of
  the desired set, the key of each combination of a root, a config path and a section name or
  the default config name; and the run has disposed exactly once the provider of each key that
  was registered and is no longer desired, and no other.
\<close>

theorem updateProviders_no_orphans:
  assumes "distinct (map fst (providers st))"
  shows "distinct (map fst (providers (fst (updateProviders cfg factory roots st))))
       \<and> set (map fst (providers (fst (updateProviders cfg factory roots st)))) =
           {createUri cfg (uri folder) configPath configName | folder configPath configName.
              folder \<in> set roots \<and> configPath \<in> set (getPaths cfg)
              \<and> configName \<in> set (getSectionNames cfg) \<union> {getConfigName cfg}}
       \<and> (\<forall>k. count_list (snd (updateProviders cfg factory roots st)) (Disposed k) =
             (if k \<in> set (map fst (providers st))
                 \<and> k \<notin> set (map fst (providers (fst (updateProviders cfg factory roots st))))
              then 1 else 0))"
proof -
  let ?V = "visitDesired cfg factory (desiredTriples cfg roots) st (map fst (providers st)) []"
  have "distinct (map fst (providers (fst ?V)))"
    using assms by (rule visit_distinct)
  then have a: "distinct (map fst (providers (fst (updateProviders cfg factory roots st))))"
    unfolding updateProviders_keys by (rule distinct_filter)
  have keys: "set (map fst (providers (fst (updateProviders cfg factory roots st)))) =
                set (desiredKeys cfg roots)"
    by (rule updateProviders_key_set)
  have stale: "disposedKeys (snd (updateProviders cfg factory roots st)) =
                 [k \<leftarrow> map fst (providers st). k \<notin> set (desiredKeys cfg roots)]"
    using assms by (rule updateProviders_disposed)
  have "distinct [k \<leftarrow> map fst (providers st). k \<notin> set (desiredKeys cfg roots)]"
    using assms by simp
  then have c: "count_list (snd (updateProviders cfg factory roots st)) (Disposed k) =
             (if k \<in> set (map fst (providers st))
                 \<and> k \<notin> set (map fst (providers (fst (updateProviders cfg factory roots st))))
              then 1 else 0)" for k
    unfolding count_disposed stale keys by (simp add: count_distinct)
  show ?thesis
    using a c keys unfolding desiredKeys_set by blast
qed

theorem updateProviders_no_orphans_witness:
  "map fst (providers (fst (updateProviders onePathConfigurations plainFactory
                              [\<lparr> uri = ''file:///b'' \<rparr>, \<lparr> uri = ''file:///c'' \<rparr>] stateAB))) =
     [''file:///b/.kt/launch.json'', ''file:///b/.kt/tasks.json'', ''file:///b/.kt/settings.json'',
      ''file:///c/.kt/launch.json'', ''file:///c/.kt/tasks.json'', ''file:///c/.kt/settings.json'']
   \<and> disposedKeys (snd (updateProviders onePathConfigurations plainFactory
                          [\<lparr> uri = ''file:///b'' \<rparr>, \<lparr> uri = ''file:///c'' \<rparr>] stateAB)) =
     [''file:///a/.kt/launch.json'', ''file:///a/.kt/tasks.json'', ''file:///a/.kt/settings.json'']
   \<and> count_list (snd (updateProviders onePathConfigurations plainFactory
                         [\<lparr> uri = ''file:///b'' \<rparr>, \<lparr> uri = ''file:///c'' \<rparr>] stateAB))
        (Disposed ''file:///a/.kt/launch.json'') = 1
   \<and> count_list (snd (updateProviders onePathConfigurations plainFactory
                         [\<lparr> uri = ''file:///b'' \<rparr>, \<lparr> uri = ''file:///c'' \<rparr>] stateAB))
        (Disposed ''file:///b/.kt/launch.json'') = 0"
proof -
  let ?U = "updateProviders onePathConfigurations plainFactory
              [\<lparr> uri = ''file:///b'' \<rparr>, \<lparr> uri = ''file:///c'' \<rparr>] stateAB"
  have d: "distinct (map fst (providers stateAB))"
    by code_simp
  have gone: "''file:///a/.kt/launch.json'' \<in> set (map fst (providers stateAB))
            \<and> ''file:///a/.kt/launch.json'' \<notin> set (map fst (providers (fst ?U)))"
    by code_simp
  have kept: "\<not> (''file:///b/.kt/launch.json'' \<in> set (map fst (providers stateAB))
            \<and> ''file:///b/.kt/launch.json'' \<notin> set (map fst (providers (fst ?U))))"
    by code_simp
  have all: "\<forall>k. count_list (snd ?U) (Disposed k) =
                   (if k \<in> set (map fst (providers stateAB))
                       \<and> k \<notin> set (map fst (providers (fst ?U)))
                    then 1 else 0)"
    using updateProviders_no_orphans[OF d, of onePathConfigurations plainFactory
        "[\<lparr> uri = ''file:///b'' \<rparr>, \<lparr> uri = ''file:///c'' \<rparr>]"]
    by blast
  have counts: "count_list (snd ?U) (Disposed ''file:///a/.kt/launch.json'') = 1"
    "count_list (snd ?U) (Disposed ''file:///b/.kt/launch.json'') = 0"
    using spec[OF all, of "''file:///a/.kt/launch.json''"]
      spec[OF all, of "''file:///b/.kt/launch.json''"]
    by (simp_all only: if_P[OF gone] if_not_P[OF kept])
  have keys: "map fst (providers (fst ?U)) =
     [''file:///b/.kt/launch.json'', ''file:///b/.kt/tasks.json'', ''file:///b/.kt/settings.json'',
      ''file:///c/.kt/launch.json'', ''file:///c/.kt/tasks.json'', ''file:///c/.kt/settings.json'']"
    by code_simp
  have disposed: "disposedKeys (snd ?U) =
     [''file:///a/.kt/launch.json'', ''file:///a/.kt/tasks.json'', ''file:///a/.kt/settings.json'']"
    by code_simp
  show ?thesis using keys disposed counts by blast
qed

end
